theory Spec2Isabelle
  imports Main "HOL-Library.Word" "HOL-Library.Sublist"
begin

section \<open>Go strings and the \<open>strings\<close> package\<close>

text \<open>
  A Go \<open>string\<close> and a \<open>[]byte\<close> are sequences of bytes; both are modelled as
  \<^typ>\<open>string\<close>, a list of 8-bit characters. \<open>len\<close> is \<^const>\<open>length\<close>, the slice
  \<open>s[i:j]\<close> is \<open>take (j - i) (drop i s)\<close>.
\<close>

definition LF :: char where
  "LF = CHR 0x0A"

definition CR :: char where
  "CR = CHR 0x0D"

definition slice :: "string \<Rightarrow> nat \<Rightarrow> nat \<Rightarrow> string" where
  \<comment> \<open>\<open>s[i:j]\<close> for \<open>i \<le> j \<le> len(s)\<close>\<close>
  "slice s i j = take (j - i) (drop i s)"

definition TrimPrefix :: "string \<Rightarrow> string \<Rightarrow> string" where
  "TrimPrefix s p = (if prefix p s then drop (length p) s else s)"

definition TrimSuffix :: "string \<Rightarrow> string \<Rightarrow> string" where
  "TrimSuffix s p = (if suffix p s then take (length s - length p) s else s)"

text \<open>
  \<open>strings.Index(s, sub)\<close>: the index of the first occurrence of \<open>sub\<close> in \<open>s\<close>,
  or \<open>-1\<close>.
\<close>

fun Index :: "string \<Rightarrow> string \<Rightarrow> int" where
  "Index [] sub = (if sub = [] then 0 else -1)"
| "Index (c # cs) sub =
     (if prefix sub (c # cs) then 0
      else (let i = Index cs sub in if i = -1 then -1 else i + 1))"

text \<open>
  White space as \<open>unicode.IsSpace\<close> defines it, in UTF-8: the six ASCII characters
  tab, line feed, vertical tab, form feed, carriage return and space, then U+0085,
  U+00A0, U+1680, U+2000 to U+200A, U+2028, U+2029, U+202F, U+205F and U+3000.
  \<open>strings.TrimSpace\<close> and \<open>strings.Fields\<close> decode the string rune by rune; a byte
  that starts no valid encoding decodes to U+FFFD, which is not white space, and the
  first byte of every encoding below is a leading byte, so the runes that are white
  space are exactly the occurrences of these byte sequences.
\<close>

definition spaceSeqs :: "string list" where
  "spaceSeqs =
    [[CHR 0x09], [CHR 0x0A], [CHR 0x0B], [CHR 0x0C], [CHR 0x0D], [CHR 0x20],
     [CHR 0xC2, CHR 0x85], [CHR 0xC2, CHR 0xA0],
     [CHR 0xE1, CHR 0x9A, CHR 0x80],
     [CHR 0xE2, CHR 0x80, CHR 0x80], [CHR 0xE2, CHR 0x80, CHR 0x81],
     [CHR 0xE2, CHR 0x80, CHR 0x82], [CHR 0xE2, CHR 0x80, CHR 0x83],
     [CHR 0xE2, CHR 0x80, CHR 0x84], [CHR 0xE2, CHR 0x80, CHR 0x85],
     [CHR 0xE2, CHR 0x80, CHR 0x86], [CHR 0xE2, CHR 0x80, CHR 0x87],
     [CHR 0xE2, CHR 0x80, CHR 0x88], [CHR 0xE2, CHR 0x80, CHR 0x89],
     [CHR 0xE2, CHR 0x80, CHR 0x8A],
     [CHR 0xE2, CHR 0x80, CHR 0xA8], [CHR 0xE2, CHR 0x80, CHR 0xA9],
     [CHR 0xE2, CHR 0x80, CHR 0xAF],
     [CHR 0xE2, CHR 0x81, CHR 0x9F],
     [CHR 0xE3, CHR 0x80, CHR 0x80]]"

definition spaceLen :: "string \<Rightarrow> nat" where
  \<comment> \<open>the length of the white-space rune the string starts with, 0 when it starts with none\<close>
  "spaceLen s = (case find (\<lambda>w. prefix w s) spaceSeqs of None \<Rightarrow> 0 | Some w \<Rightarrow> length w)"

definition spaceLenEnd :: "string \<Rightarrow> nat" where
  \<comment> \<open>the length of the white-space rune the string ends with, 0 when it ends with none\<close>
  "spaceLenEnd s = (case find (\<lambda>w. suffix w s) spaceSeqs of None \<Rightarrow> 0 | Some w \<Rightarrow> length w)"

lemma spaceSeqs_nonempty: "w \<in> set spaceSeqs \<Longrightarrow> w \<noteq> []"
  by (auto simp: spaceSeqs_def)

lemma spaceLen_le: "spaceLen s \<le> length s"
  by (auto simp: spaceLen_def prefix_length_le split: option.splits dest!: find_Some_iff[THEN iffD1])

lemma spaceLen_pos: "spaceLen s \<noteq> 0 \<Longrightarrow> s \<noteq> []"
  using spaceLen_le [of s] by auto

lemma spaceLenEnd_le: "spaceLenEnd s \<le> length s"
  by (auto simp: spaceLenEnd_def suffix_length_le split: option.splits dest!: find_Some_iff[THEN iffD1])

function TrimLeftSpace :: "string \<Rightarrow> string" where
  "TrimLeftSpace s = (if spaceLen s = 0 then s else TrimLeftSpace (drop (spaceLen s) s))"
  by pat_completeness auto
termination
proof (relation "measure length")
  show "wf (measure length)" by simp
next
  fix s :: string
  assume "spaceLen s \<noteq> 0"
  then show "(drop (spaceLen s) s, s) \<in> measure length"
    using spaceLen_pos [of s] by (cases s) auto
qed

function TrimRightSpace :: "string \<Rightarrow> string" where
  "TrimRightSpace s =
     (if spaceLenEnd s = 0 then s else TrimRightSpace (take (length s - spaceLenEnd s) s))"
  by pat_completeness auto
termination
proof (relation "measure length")
  show "wf (measure length)" by simp
next
  fix s :: string
  assume "spaceLenEnd s \<noteq> 0"
  then show "(take (length s - spaceLenEnd s) s, s) \<in> measure length"
    using spaceLenEnd_le [of s] by (cases s) auto
qed

declare TrimLeftSpace.simps [simp del]
declare TrimRightSpace.simps [simp del]

definition TrimSpace :: "string \<Rightarrow> string" where
  "TrimSpace s = TrimRightSpace (TrimLeftSpace s)"

text \<open>
  \<open>strings.ToLower\<close>: a string of ASCII bytes is lowered byte by byte; any other
  string goes through the Unicode case tables of the standard library, which are a
  parameter \<open>U\<close> here.
\<close>

definition asciiLower :: "char \<Rightarrow> char" where
  "asciiLower c =
     (if (of_char (CHR ''A'') :: nat) \<le> of_char c \<and> (of_char c :: nat) \<le> of_char (CHR ''Z'')
      then char_of ((of_char c :: nat) + 32) else c)"

definition ToLower :: "(string \<Rightarrow> string) \<Rightarrow> string \<Rightarrow> string" where
  "ToLower U s = (if \<forall>c \<in> set s. (of_char c :: nat) < 128 then map asciiLower s else U s)"

text \<open>
  \<open>strings.Trim(s, cutset)\<close> for a cutset of ASCII characters (the only call in the
  sources has the cutset \<open>"\<close>): the bytes of the cutset are removed at both ends.
\<close>

definition Trim :: "string \<Rightarrow> string \<Rightarrow> string" where
  "Trim s cutset =
     rev (dropWhile (\<lambda>c. c \<in> set cutset) (rev (dropWhile (\<lambda>c. c \<in> set cutset) s)))"

text \<open>
  \<open>strings.ReplaceAll(s, old, new)\<close> for a non-empty \<open>old\<close>: the occurrences are
  replaced from left to right, without overlap. The first argument counts the bytes
  of an occurrence that are still to be skipped.
\<close>

fun replaceLoop :: "nat \<Rightarrow> string \<Rightarrow> string \<Rightarrow> string \<Rightarrow> string" where
  "replaceLoop k [] old new = []"
| "replaceLoop (Suc k) (c # cs) old new = replaceLoop k cs old new"
| "replaceLoop 0 (c # cs) old new =
     (if prefix old (c # cs) then new @ replaceLoop (length old - 1) cs old new
      else c # replaceLoop 0 cs old new)"

definition ReplaceAll :: "string \<Rightarrow> string \<Rightarrow> string \<Rightarrow> string" where
  "ReplaceAll s old new = replaceLoop 0 s old new"

text \<open>
  \<open>strings.Fields(s)\<close>: the maximal substrings without white space, in order. The
  first argument counts the bytes of a white-space rune that are still to be skipped,
  the last one is the field read so far.
\<close>

fun fieldsLoop :: "nat \<Rightarrow> string \<Rightarrow> string \<Rightarrow> string list" where
  "fieldsLoop k [] cur = (if cur = [] then [] else [cur])"
| "fieldsLoop (Suc k) (c # cs) cur = fieldsLoop k cs cur"
| "fieldsLoop 0 (c # cs) cur =
     (if spaceLen (c # cs) \<noteq> 0
      then (if cur = [] then [] else [cur]) @ fieldsLoop (spaceLen (c # cs) - 1) cs []
      else fieldsLoop 0 cs (cur @ [c]))"

definition Fields :: "string \<Rightarrow> string list" where
  "Fields s = fieldsLoop 0 s []"

fun Join :: "string list \<Rightarrow> string \<Rightarrow> string" where
  "Join [] sep = []"
| "Join [e] sep = e"
| "Join (e # es) sep = e @ sep @ Join es sep"

section \<open>The syntax tree\<close>

text \<open>
  The tree comes from the tree-sitter library. A node has a kind, a byte span (two
  \<open>uint32\<close>) and children; a node handle (\<open>*sitter.Node\<close>) is a node together with
  its ancestors, nearest first, so that \<open>Parent\<close> is defined; a nil handle is \<open>None\<close>.
\<close>

datatype tsnode =
  TSNode (ntype: string) (startByte: "32 word") (endByte: "32 word") (children: "tsnode list")

type_synonym nodeRef = "tsnode \<times> tsnode list"

record Point =
  Row :: "32 word"
  Column :: "32 word"

fun Parent :: "nodeRef \<Rightarrow> nodeRef option" where
  "Parent (n, []) = None"
| "Parent (n, p # ps) = Some (p, ps)"

text \<open>
  A tree cursor (\<open>sitter.NewTreeCursor(node)\<close>) is the current node and, for each
  ancestor below the starting node, that ancestor with the siblings to the right of
  the path. It never leaves the subtree of the node it was created on.
\<close>

type_synonym cursor = "tsnode \<times> (tsnode \<times> tsnode list) list"

definition NewTreeCursor :: "tsnode \<Rightarrow> cursor" where
  "NewTreeCursor n = (n, [])"

fun CurrentNode :: "cursor \<Rightarrow> tsnode" where
  "CurrentNode (n, st) = n"

fun GoToFirstChild :: "cursor \<Rightarrow> cursor option" where
  "GoToFirstChild (n, st) = (case children n of [] \<Rightarrow> None | c # cs \<Rightarrow> Some (c, (n, cs) # st))"

fun GoToNextSibling :: "cursor \<Rightarrow> cursor option" where
  "GoToNextSibling (n, (p, r # rs) # st) = Some (r, (p, rs) # st)"
| "GoToNextSibling (n, st) = None"

fun GoToParent :: "cursor \<Rightarrow> cursor option" where
  "GoToParent (n, (p, rs) # st) = Some (p, st)"
| "GoToParent (n, []) = None"

section \<open>The context extractor\<close>

record NodeInfo =
  Type :: string
  Content :: string
  StartByte :: "32 word"
  EndByte :: "32 word"

record ContextInfo =
  LanguageID :: string
  Filename :: string
  Prefix :: string
  Suffix :: string
  CurrentLinePrefix :: string
  CurrentLineSuffix :: string
  CursorNode :: "NodeInfo option"
  EnclosingNode :: "NodeInfo option"
  Imports :: "string list"

definition functionNodeTypes :: "string \<Rightarrow> string list option" where
  "functionNodeTypes = map_of
    [(''go'', [''function_declaration'', ''method_declaration'']),
     (''python'', [''function_definition'']),
     (''javascript'', [''function_declaration'', ''function_expression'', ''arrow_function'', ''method_definition'']),
     (''typescript'', [''function_declaration'', ''function_expression'', ''arrow_function'', ''method_definition'']),
     (''rust'', [''function_item'', ''function_signature_item'', ''impl_item'']),
     (''java'', [''method_declaration'', ''constructor_declaration''])]"

definition classNodeTypes :: "string \<Rightarrow> string list option" where
  "classNodeTypes = map_of
    [(''go'', [''type_spec'', ''struct_type'']),
     (''python'', [''class_definition'']),
     (''javascript'', [''class_declaration'', ''class_expression'']),
     (''typescript'', [''class_declaration'', ''class_expression'', ''interface_declaration'']),
     (''rust'', [''struct_item'', ''enum_item'', ''trait_item'', ''union_item'', ''impl_item'']),
     (''java'', [''class_declaration'', ''interface_declaration'', ''enum_declaration''])]"

definition importNodeTypes :: "string \<Rightarrow> string list option" where
  "importNodeTypes = map_of
    [(''go'', [''import_declaration'', ''import_spec'']),
     (''python'', [''import_statement'', ''import_from_statement'']),
     (''javascript'', [''import_statement'']),
     (''typescript'', [''import_statement'']),
     (''rust'', [''use_declaration'', ''extern_crate_declaration'']),
     (''java'', [''import_declaration''])]"

definition getNodeText :: "tsnode \<Rightarrow> string \<Rightarrow> string" where
  "getNodeText node content =
    (let start = startByte node;
         end = endByte node;
         contentLen = (word_of_nat (length content) :: 32 word)
     in if start > end \<or> end > contentLen then ''[error extracting text bounds]''
        else slice content (unat start) (unat end))"

definition nodeInfo :: "string \<Rightarrow> nodeRef \<Rightarrow> NodeInfo" where
  "nodeInfo content r =
    \<lparr>Type = ntype (fst r), Content = getNodeText (fst r) content,
     StartByte = startByte (fst r), EndByte = endByte (fst r)\<rparr>"

text \<open>
  \<open>findAncestorOfType\<close>: the loop follows \<open>Parent\<close> from the start node; the list is
  the start node followed by its ancestors.
\<close>

fun ancestorLoop :: "tsnode list \<Rightarrow> string list \<Rightarrow> nodeRef option" where
  "ancestorLoop [] types = None"
| "ancestorLoop (n # ps) types = (if ntype n \<in> set types then Some (n, ps) else ancestorLoop ps types)"

definition findAncestorOfType :: "nodeRef option \<Rightarrow> string list \<Rightarrow> nodeRef option" where
  "findAncestorOfType startNode types =
    (case startNode of None \<Rightarrow> None
     | Some (n, ps) \<Rightarrow> if length types = 0 then None else ancestorLoop (n # ps) types)"

fun pointLoop :: "string \<Rightarrow> int \<Rightarrow> int \<Rightarrow> Point \<Rightarrow> Point" where
  "pointLoop [] currentOffset byteOffset point = point"
| "pointLoop (b # bs) currentOffset byteOffset point =
     (if currentOffset = byteOffset then point
      else pointLoop bs (currentOffset + 1) byteOffset
             (if b = LF then point\<lparr>Row := Row point + 1, Column := 0\<rparr>
              else point\<lparr>Column := Column point + 1\<rparr>))"

definition calculatePointFromOffset :: "string \<Rightarrow> int \<Rightarrow> Point" where
  "calculatePointFromOffset content byteOffset =
    (let byteOffset = (if byteOffset < 0 then 0 else byteOffset);
         byteOffset = (if byteOffset > int (length content) then int (length content) else byteOffset)
     in pointLoop content 0 byteOffset \<lparr>Row = 0, Column = 0\<rparr>)"

text \<open>The two loops that find the boundaries of the cursor's line.\<close>

fun lineStartLoop :: "string \<Rightarrow> nat \<Rightarrow> nat" where
  "lineStartLoop content 0 = 0"
| "lineStartLoop content (Suc n) = (if content ! n \<noteq> LF then lineStartLoop content n else Suc n)"

function lineEndLoop :: "string \<Rightarrow> nat \<Rightarrow> nat" where
  "lineEndLoop content i =
     (if i < length content \<and> content ! i \<noteq> LF then lineEndLoop content (i + 1) else i)"
  by pat_completeness auto
termination
  by (relation "measure (\<lambda>(content, i). length content - i)") auto

declare lineEndLoop.simps [simp del]

definition finalCheck :: "string \<Rightarrow> string" where
  \<comment> \<open>the last check of \<open>cleanImportText\<close>: a string of white space only becomes empty\<close>
  "finalCheck cleaned = (if length (Fields cleaned) = 0 then [] else cleaned)"

definition cleanImportText :: "string \<Rightarrow> string \<Rightarrow> string" where
  "cleanImportText importText languageID =
    (let cleaned = TrimSpace importText in
     if languageID = ''go'' then
       (let cleaned = Trim cleaned [CHR 0x22];
            cleaned = TrimPrefix cleaned ''import ('';
            cleaned = TrimPrefix cleaned ''import'';
            cleaned = TrimSuffix cleaned '')'';
            cleaned = TrimSpace cleaned
        in if length cleaned = 0 \<or> cleaned = ''('' \<or> cleaned = '')'' then []
           else finalCheck cleaned)
     else if languageID = ''python'' then
       (let cleaned = ReplaceAll cleaned [LF] '' '';
            cleaned = Join (Fields cleaned) '' ''
        in finalCheck cleaned)
     else if languageID = ''javascript'' \<or> languageID = ''typescript'' then
       (let cleaned = ReplaceAll cleaned [LF] '' '';
            cleaned = Join (Fields cleaned) '' ''
        in finalCheck cleaned)
     else if languageID = ''rust'' then
       (let cleaned = TrimPrefix cleaned ''use '';
            cleaned = TrimPrefix cleaned ''extern crate '';
            cleaned = TrimSuffix cleaned '';'';
            cleaned = TrimSpace cleaned
        in finalCheck cleaned)
     else if languageID = ''java'' then
       (let cleaned = TrimPrefix cleaned ''import '';
            cleaned = TrimSuffix cleaned '';'';
            cleaned = TrimPrefix cleaned ''static '';
            cleaned = TrimSpace cleaned
        in finalCheck cleaned)
     else finalCheck cleaned)"

text \<open>
  The import loop of \<open>ExtractContext\<close>. Its state is the list \<open>ctxInfo.Imports\<close> and
  the map \<open>visitedImports\<close>; \<open>importVisit\<close> is what one iteration does with the
  cursor's current node, \<open>advance\<close> is the traversal logic that ends the iteration
  (\<open>None\<close> when \<open>hasNext\<close> becomes false).
\<close>

type_synonym importState = "string list \<times> (string \<Rightarrow> bool)"

definition importVisit :: "string \<Rightarrow> string \<Rightarrow> string list \<Rightarrow> tsnode \<Rightarrow> importState \<Rightarrow> importState" where
  "importVisit content languageID importTypes node st =
    (if ntype node \<in> set importTypes then
       (let importText = getNodeText node content;
            cleanedImport = cleanImportText importText languageID
        in if cleanedImport \<noteq> [] \<and> \<not> snd st cleanedImport
           then (fst st @ [cleanedImport], (snd st)(cleanedImport := True))
           else st)
     else st)"

fun climb :: "cursor \<Rightarrow> cursor option" where
  "climb (n, []) = None"
| "climb (n, (p, rs) # st) =
     (case GoToNextSibling (p, st) of Some c \<Rightarrow> Some c | None \<Rightarrow> climb (p, st))"

definition advance :: "cursor \<Rightarrow> cursor option" where
  "advance cur =
    (case GoToFirstChild cur of Some c \<Rightarrow> Some c
     | None \<Rightarrow> (case GoToNextSibling cur of Some c \<Rightarrow> Some c | None \<Rightarrow> climb cur))"

fun nodes :: "tsnode \<Rightarrow> nat" where
  "nodes (TSNode t s e cs) = Suc (sum_list (map nodes cs))"

definition rights :: "(tsnode \<times> tsnode list) list \<Rightarrow> nat" where
  \<comment> \<open>the number of nodes to the right of the cursor's path\<close>
  "rights st = sum_list (map (\<lambda>(p, rs). sum_list (map nodes rs)) st)"

fun pending :: "cursor \<Rightarrow> nat" where
  \<comment> \<open>the number of nodes the cursor has still to visit\<close>
  "pending (n, st) = nodes n + rights st"

lemma nodes_pos: "0 < nodes n"
  by (cases n) simp

lemma GoToFirstChild_pending: "GoToFirstChild cur = Some c \<Longrightarrow> pending c < pending cur"
proof -
  obtain n st where cur: "cur = (n, st)" by (cases cur)
  obtain t s e cs where n: "n = TSNode t s e cs" by (cases n)
  assume "GoToFirstChild cur = Some c"
  with cur n show ?thesis
    by (auto simp: rights_def split: list.splits)
qed

lemma GoToNextSibling_rights: "GoToNextSibling (n, st) = Some c \<Longrightarrow> pending c = rights st"
  by (induction "(n, st)" arbitrary: n st rule: GoToNextSibling.induct) (auto simp: rights_def)

lemma climb_rights: "climb (n, st) = Some c \<Longrightarrow> pending c \<le> rights st"
proof (induction st arbitrary: n)
  case Nil
  then show ?case by simp
next
  case (Cons f st)
  obtain p rs where f: "f = (p, rs)" by (cases f)
  show ?case
  proof (cases "GoToNextSibling (p, st)")
    case None
    with Cons.prems f have "climb (p, st) = Some c" by simp
    from Cons.IH [OF this] show ?thesis
      by (simp add: f rights_def)
  next
    case (Some d)
    with Cons.prems f have "d = c" by simp
    with GoToNextSibling_rights [OF Some] show ?thesis
      by (simp add: f rights_def)
  qed
qed

lemma advance_pending: "advance cur = Some c \<Longrightarrow> pending c < pending cur"
proof -
  obtain n st where cur: "cur = (n, st)" by (cases cur)
  assume a: "advance cur = Some c"
  show ?thesis
  proof (cases "GoToFirstChild cur")
    case (Some d)
    with a have "d = c" by (simp add: advance_def)
    with GoToFirstChild_pending [OF Some] show ?thesis by simp
  next
    case None
    note nofirst = this
    show ?thesis
    proof (cases "GoToNextSibling cur")
      case (Some d)
      with a nofirst have "d = c" by (simp add: advance_def)
      with GoToNextSibling_rights [of n st d] Some cur nodes_pos [of n] show ?thesis
        by simp
    next
      case None
      with a nofirst have "climb (n, st) = Some c" by (simp add: advance_def cur)
      from climb_rights [OF this] nodes_pos [of n] cur show ?thesis
        by simp
    qed
  qed
qed

function importLoop ::
  "string \<Rightarrow> string \<Rightarrow> string list \<Rightarrow> cursor \<Rightarrow> importState \<Rightarrow> importState" where
  "importLoop content languageID importTypes treeCursor st =
    (let node = CurrentNode treeCursor;
         st = importVisit content languageID importTypes node st
     in case advance treeCursor of
          None \<Rightarrow> st
        | Some next_cursor \<Rightarrow> importLoop content languageID importTypes next_cursor st)"
  by pat_completeness auto
termination
  by (relation "measure (\<lambda>(content, languageID, importTypes, treeCursor, st). pending treeCursor)")
     (auto simp: advance_pending)

declare importLoop.simps [simp del]

definition extractImports :: "string \<Rightarrow> tsnode \<Rightarrow> string \<Rightarrow> string list" where
  \<comment> \<open>section 6 of \<open>ExtractContext\<close>; \<open>ctxInfo.Imports\<close> starts as \<open>make([]string, 0)\<close>\<close>
  "extractImports content rootNode languageID =
    (case importNodeTypes languageID of
       None \<Rightarrow> []
     | Some importTypes \<Rightarrow>
         if length importTypes > 0
         then fst (importLoop content languageID importTypes (NewTreeCursor rootNode)
                     ([], \<lambda>_. False))
         else [])"

definition nodeTypesOf :: "(string \<Rightarrow> string list option) \<Rightarrow> string \<Rightarrow> string list" where
  \<comment> \<open>indexing a Go map: a missing key gives the nil slice\<close>
  "nodeTypesOf table languageID = (case table languageID of None \<Rightarrow> [] | Some ts \<Rightarrow> ts)"

text \<open>
  \<open>ExtractContext\<close>. \<open>NamedDescendantForPointRange\<close> belongs to the tree-sitter
  library and is the parameter \<open>D\<close>. An error is returned as its message.
\<close>

definition prefixContextBytes :: int where
  "prefixContextBytes = 2048"

definition suffixContextBytes :: int where
  "suffixContextBytes = 256"

definition ExtractContext ::
  "(nodeRef \<Rightarrow> Point \<Rightarrow> Point \<Rightarrow> nodeRef option) \<Rightarrow> string \<Rightarrow> nodeRef option \<Rightarrow>
   nodeRef option \<Rightarrow> int \<Rightarrow> string \<Rightarrow> string \<Rightarrow> string + ContextInfo" where
  "ExtractContext D content rootNode passedCursorNode cursorByteOffset languageID filename =
    (case rootNode of
       None \<Rightarrow> Inl ''cannot extract context without root node''
     | Some root \<Rightarrow>
        (let contentLen = int (length content);
             cursorByteOffset =
               (if cursorByteOffset < 0 then 0
                else if cursorByteOffset > contentLen then contentLen else cursorByteOffset);
             point = calculatePointFromOffset content cursorByteOffset;
             cursorNode = (case passedCursorNode of Some n \<Rightarrow> Some n | None \<Rightarrow> D root point point);
             lineStartByte = int (lineStartLoop content (nat cursorByteOffset));
             lineEndByte = int (lineEndLoop content (nat cursorByteOffset));
             currentLinePrefixEndByte = cursorByteOffset;
             currentLinePrefixEndByte =
               (if currentLinePrefixEndByte < lineStartByte then lineStartByte
                else currentLinePrefixEndByte);
             currentLinePrefixEndByte =
               (if currentLinePrefixEndByte > lineEndByte then lineEndByte
                else currentLinePrefixEndByte);
             currentLineSuffixStartByte = cursorByteOffset;
             currentLineSuffixStartByte =
               (if currentLineSuffixStartByte < lineStartByte then lineStartByte
                else currentLineSuffixStartByte);
             currentLineSuffixStartByte =
               (if currentLineSuffixStartByte > lineEndByte then lineEndByte
                else currentLineSuffixStartByte);
             prefixStartByte = lineStartByte - prefixContextBytes;
             prefixStartByte = (if prefixStartByte < 0 then 0 else prefixStartByte);
             prefixEndByte = lineStartByte;
             suffixStartByte = lineEndByte;
             suffixStartByte =
               (if suffixStartByte < contentLen \<and> content ! nat suffixStartByte = LF
                then suffixStartByte + 1 else suffixStartByte);
             suffixEndByte = suffixStartByte + suffixContextBytes;
             suffixEndByte = (if suffixEndByte > contentLen then contentLen else suffixEndByte);
             searchStartNodeForEnclosing =
               (case cursorNode of Some n \<Rightarrow> Some n | None \<Rightarrow> D root point point);
             enclosingTypes =
               nodeTypesOf functionNodeTypes languageID @ nodeTypesOf classNodeTypes languageID;
             enclosingBlockNode = findAncestorOfType searchStartNodeForEnclosing enclosingTypes
         in Inr \<lparr>LanguageID = languageID,
                 Filename = filename,
                 Prefix =
                   (if prefixEndByte > prefixStartByte
                    then slice content (nat prefixStartByte) (nat prefixEndByte) else []),
                 Suffix =
                   (if suffixEndByte > suffixStartByte
                    then slice content (nat suffixStartByte) (nat suffixEndByte) else []),
                 CurrentLinePrefix =
                   (if currentLinePrefixEndByte > lineStartByte
                    then slice content (nat lineStartByte) (nat currentLinePrefixEndByte) else []),
                 CurrentLineSuffix =
                   (if lineEndByte > currentLineSuffixStartByte
                    then slice content (nat currentLineSuffixStartByte) (nat lineEndByte) else []),
                 CursorNode = map_option (nodeInfo content) cursorNode,
                 EnclosingNode = map_option (nodeInfo content) enclosingBlockNode,
                 Imports = extractImports content (fst root) languageID\<rparr>))"

text \<open>The offset \<open>ExtractContext\<close> works with, after its validation of the cursor offset.\<close>

definition clampOffset :: "string \<Rightarrow> int \<Rightarrow> nat" where
  "clampOffset content off = nat (max 0 (min off (int (length content))))"

text \<open>
  For concrete runs: a lookup that finds no named node, and the document of the
  end-to-end example, with the cursor after \<open>fmt.Pri\<close> at offset 22.
\<close>

definition noDescendant :: "nodeRef \<Rightarrow> Point \<Rightarrow> Point \<Rightarrow> nodeRef option" where
  "noDescendant root p q = None"

definition exampleDoc :: string where
  "exampleDoc = ''func main() {'' @ [LF, CHR 0x09] @ ''fmt.Pri'' @ [LF] @ ''}''"

definition exampleRoot :: nodeRef where
  "exampleRoot = (TSNode ''source_file'' 0 24 [TSNode ''function_declaration'' 0 24 []], [])"

definition exampleContext :: ContextInfo where
  "exampleContext =
     \<lparr>LanguageID = ''go'', Filename = ''main.go'',
      Prefix = ''func main() {'' @ [LF], Suffix = ''}'',
      CurrentLinePrefix = CHR 0x09 # ''fmt.Pri'', CurrentLineSuffix = [],
      CursorNode = None, EnclosingNode = None, Imports = []\<rparr>"

text \<open>
  Reference definitions for the import list, following the specification: one
  traversal of the whole tree is the list of its nodes in pre-order; the cleaned
  import strings are the non-empty cleaned texts of the nodes of an import kind, in
  that order; \<open>firstOccurrences\<close> keeps each distinct string once, at the place where
  it is first seen.
\<close>

fun preorder :: "tsnode \<Rightarrow> tsnode list" where
  "preorder (TSNode t s e cs) = TSNode t s e cs # concat (map preorder cs)"

definition restNodes :: "(tsnode \<times> tsnode list) list \<Rightarrow> tsnode list" where
  \<comment> \<open>the nodes to the right of a cursor's path, in pre-order\<close>
  "restNodes st = concat (map (\<lambda>(p, rs). concat (map preorder rs)) st)"

definition firstOccurrences :: "'a list \<Rightarrow> 'a list" where
  "firstOccurrences xs = rev (remdups (rev xs))"

definition cleanedImports :: "string \<Rightarrow> string \<Rightarrow> string list \<Rightarrow> tsnode list \<Rightarrow> string list" where
  "cleanedImports content languageID importTypes ns =
     filter (\<lambda>s. s \<noteq> [])
       (map (\<lambda>n. cleanImportText (getNodeText n content) languageID)
          (filter (\<lambda>n. ntype n \<in> set importTypes) ns))"

text \<open>A Go file with three import declarations, two of them the same.\<close>

definition importsDoc :: string where
  "importsDoc =
     ''import '' @ [CHR 0x22] @ ''a'' @ [CHR 0x22, LF] @
     ''import '' @ [CHR 0x22] @ ''b'' @ [CHR 0x22, LF] @
     ''import '' @ [CHR 0x22] @ ''a'' @ [CHR 0x22]"

definition importsRoot :: nodeRef where
  "importsRoot =
     (TSNode ''source_file'' 0 32
        [TSNode ''import_declaration'' 0 10 [TSNode ''import_spec'' 7 10 []],
         TSNode ''import_declaration'' 11 21 [TSNode ''import_spec'' 18 21 []],
         TSNode ''import_declaration'' 22 32 [TSNode ''import_spec'' 29 32 []]], [])"

definition importsContext :: ContextInfo where
  "importsContext =
     \<lparr>LanguageID = ''go'', Filename = ''main.go'',
      Prefix = [], Suffix = ''import '' @ [CHR 0x22] @ ''b'' @ [CHR 0x22, LF] @
     ''import '' @ [CHR 0x22] @ ''a'' @ [CHR 0x22],
      CurrentLinePrefix = [], CurrentLineSuffix = ''import '' @ [CHR 0x22] @ ''a'' @ [CHR 0x22],
      CursorNode = None, EnclosingNode = None,
      Imports = [CHR 0x22 # ''a'', ''a'', CHR 0x22 # ''b'', ''b'']\<rparr>"

section \<open>The position translator\<close>

record Position =
  Line :: int
  Character :: int

datatype posError =
    NegativeLine int
  | NegativeCharacter int
  | ScanError
  | LogicError int

text \<open>
  \<open>bufio.Scanner\<close> with its default split function \<open>ScanLines\<close>, on a reader over
  the whole content. The lines are the stretches of bytes between line feeds; an
  empty stretch after the last line feed is no line. \<open>rawLines\<close> splits the content
  (its second argument is the line read so far). A token is a line without one
  trailing carriage return (\<open>dropCR\<close>). The scanner's buffer holds at most
  \<open>MaxScanTokenSize\<close> bytes: when a line does not end within them, \<open>Scan\<close> returns
  false and \<open>Err\<close> is \<open>ErrTooLong\<close>.
\<close>

fun rawLines :: "string \<Rightarrow> string \<Rightarrow> string list" where
  "rawLines [] cur = (if cur = [] then [] else [cur])"
| "rawLines (c # cs) cur = (if c = LF then cur # rawLines cs [] else rawLines cs (cur @ [c]))"

definition dropCR :: "string \<Rightarrow> string" where
  "dropCR data = (if length data > 0 \<and> last data = CR then butlast data else data)"

definition MaxScanTokenSize :: nat where
  "MaxScanTokenSize = 64 * 1024"

text \<open>
  UTF-8 decoding as \<open>utf8.DecodeRune\<close> does it: the rune and the number of bytes
  read; a byte that starts no valid encoding gives \<open>U+FFFD\<close> and one byte. The
  masks and shifts of the source are written with \<open>mod\<close> and multiplication.
\<close>

definition cont :: "nat \<Rightarrow> bool" where
  "cont b = (0x80 \<le> b \<and> b \<le> 0xBF)"

definition RuneError :: int where
  "RuneError = 0xFFFD"

fun decodeBytes :: "nat list \<Rightarrow> int \<times> nat" where
  "decodeBytes [] = (RuneError, 0)"
| "decodeBytes (b0 # bs) =
    (if b0 < 0x80 then (int b0, 1)
     else if 0xC2 \<le> b0 \<and> b0 \<le> 0xDF then
       (case bs of
          b1 # _ \<Rightarrow> if cont b1 then (int ((b0 mod 32) * 64 + b1 mod 64), 2) else (RuneError, 1)
        | _ \<Rightarrow> (RuneError, 1))
     else if 0xE0 \<le> b0 \<and> b0 \<le> 0xEF then
       (case bs of
          b1 # b2 # _ \<Rightarrow>
            if (if b0 = 0xE0 then 0xA0 else 0x80) \<le> b1 \<and> b1 \<le> (if b0 = 0xED then 0x9F else 0xBF)
               \<and> cont b2
            then (int ((b0 mod 16) * 4096 + (b1 mod 64) * 64 + b2 mod 64), 3)
            else (RuneError, 1)
        | _ \<Rightarrow> (RuneError, 1))
     else if 0xF0 \<le> b0 \<and> b0 \<le> 0xF4 then
       (case bs of
          b1 # b2 # b3 # _ \<Rightarrow>
            if (if b0 = 0xF0 then 0x90 else 0x80) \<le> b1 \<and> b1 \<le> (if b0 = 0xF4 then 0x8F else 0xBF)
               \<and> cont b2 \<and> cont b3
            then (int ((b0 mod 8) * 262144 + (b1 mod 64) * 4096 + (b2 mod 64) * 64 + b3 mod 64), 4)
            else (RuneError, 1)
        | _ \<Rightarrow> (RuneError, 1))
     else (RuneError, 1))"

definition DecodeRune :: "string \<Rightarrow> int \<times> nat" where
  "DecodeRune p = decodeBytes (map of_char (take 4 p))"

lemma decodeBytes_size: "bs \<noteq> [] \<Longrightarrow> 1 \<le> snd (decodeBytes bs) \<and> snd (decodeBytes bs) \<le> length bs"
  by (cases bs) (auto split: list.splits)

lemma DecodeRune_size: "p \<noteq> [] \<Longrightarrow> 1 \<le> snd (DecodeRune p) \<and> snd (DecodeRune p) \<le> length p"
  using decodeBytes_size [of "map of_char (take 4 p)"] by (simp add: DecodeRune_def)

text \<open>The conversion \<open>[]rune(string(lineBytes))\<close>, each rune with the bytes it was read from.\<close>

function decodeAll :: "string \<Rightarrow> (int \<times> nat) list" where
  "decodeAll [] = []"
| "decodeAll (b # bs) = DecodeRune (b # bs) # decodeAll (drop (snd (DecodeRune (b # bs))) (b # bs))"
  by pat_completeness auto
termination
proof (relation "measure length")
  show "wf (measure length)" by simp
next
  fix b :: char and bs :: string
  show "(drop (snd (DecodeRune (b # bs))) (b # bs), b # bs) \<in> measure length"
    using DecodeRune_size [of "b # bs"] by simp
qed

definition runesOf :: "string \<Rightarrow> int list" where
  "runesOf s = map fst (decodeAll s)"

definition RuneLen :: "int \<Rightarrow> int" where
  "RuneLen r =
    (if r < 0 then -1
     else if r \<le> 0x7F then 1
     else if r \<le> 0x7FF then 2
     else if 0xD800 \<le> r \<and> r \<le> 0xDFFF then -1
     else if r \<le> 0xFFFF then 3
     else if r \<le> 0x10FFFF then 4
     else -1)"

fun utf16Count :: "int list \<Rightarrow> int" where
  "utf16Count [] = 0"
| "utf16Count (r # rs) = (if r > 0xFFFF then 2 else 1) + utf16Count rs"

fun runeLoop :: "int list \<Rightarrow> int \<Rightarrow> int \<Rightarrow> int \<Rightarrow> int" where
  "runeLoop [] utf16CharCount runeOffsetBytes character = runeOffsetBytes"
| "runeLoop (r # rs) utf16CharCount runeOffsetBytes character =
    (if utf16CharCount \<ge> character then runeOffsetBytes
     else
       (let runeSize = RuneLen r;
            utf16Size = (if r > 0xFFFF then 2 else 1)
        in if utf16CharCount + utf16Size > character then runeOffsetBytes
           else runeLoop rs (utf16CharCount + utf16Size) (runeOffsetBytes + runeSize) character))"

fun scanLoop :: "string list \<Rightarrow> int \<Rightarrow> int \<Rightarrow> Position \<Rightarrow> string \<Rightarrow> posError + int" where
  "scanLoop [] currentLine byteOffset pos content =
    (if currentLine \<le> Line pos then Inr (int (length content)) else Inl (LogicError (Line pos)))"
| "scanLoop (raw # rest) currentLine byteOffset pos content =
    (if length raw \<ge> MaxScanTokenSize then Inl ScanError
     else
       (let lineBytes = dropCR raw;
            lineLenBytes = int (length lineBytes)
        in if currentLine = Line pos then
             (if Character pos < 0 then Inl (NegativeCharacter (Character pos))
              else
                (let lineRunes = runesOf lineBytes;
                     utf16CodeUnitCount = utf16Count lineRunes
                 in if Character pos > utf16CodeUnitCount then Inr (byteOffset + lineLenBytes)
                    else Inr (byteOffset + runeLoop lineRunes 0 0 (Character pos))))
           else scanLoop rest (currentLine + 1) (byteOffset + lineLenBytes + 1) pos content))"

definition PositionToOffset :: "string \<Rightarrow> Position \<Rightarrow> posError + int" where
  "PositionToOffset content pos =
    (if Line pos < 0 then Inl (NegativeLine (Line pos))
     else scanLoop (rawLines content []) 0 0 pos content)"

text \<open>
  The reference the position translator is compared with, following the
  specification: a line starts after the line feed that ends the line before it; on
  the line, code points are passed as long as their UTF-16 units (two for a code
  point above \<open>U+FFFF\<close>, one otherwise) fit into the character count, each
  advancing the offset by the bytes it occupies; a line number past the last line
  gives the length of the document. A line is valid UTF-8 when decoding it never
  replaces a byte.
\<close>

definition lineStartOffset :: "string list \<Rightarrow> nat \<Rightarrow> nat" where
  "lineStartOffset ls n = length (concat (map (\<lambda>l. l @ [LF]) (take n ls)))"

fun refColumn :: "(int \<times> nat) list \<Rightarrow> int \<Rightarrow> nat" where
  "refColumn [] ch = 0"
| "refColumn ((r, n) # rs) ch =
    (let w = (if r > 0xFFFF then 2 else 1)
     in if w \<le> ch then n + refColumn rs (ch - w) else 0)"

definition refOffset :: "string \<Rightarrow> nat \<Rightarrow> int \<Rightarrow> nat" where
  "refOffset content line ch =
    (let ls = rawLines content []
     in if line \<ge> length ls then length content
        else lineStartOffset ls line + refColumn (decodeAll (dropCR (ls ! line))) ch)"

definition validUTF8 :: "string \<Rightarrow> bool" where
  "validUTF8 s = ((RuneError, 1) \<notin> set (decodeAll s))"

text \<open>Two small documents: one with a code point outside the BMP, one with a CR LF line end.\<close>

definition positionDoc :: string where
  "positionDoc = ''ab'' @ [LF] @ [CHR 0xF0, CHR 0x9F, CHR 0x98, CHR 0x80] @ ''cd''"

definition crlfDoc :: string where
  "crlfDoc = ''a'' @ [CR, LF] @ ''b''"

section \<open>The server\<close>

subsection \<open>Messages and frames\<close>

text \<open>
  The parameters of a message are decoded with \<open>json.Unmarshal\<close> into the struct of
  the handler; decoding takes the fields the struct has and ignores the others.
  \<open>RawParams\<close> holds the fields the handlers read and whether decoding succeeds.
\<close>

record RawParams =
  decodes :: bool
  p_uri :: string
  p_text :: string
  p_languageId :: string
  p_version :: int
  p_position :: Position
  p_contentChanges :: "string list"

record RequestMessage =
  ID :: "int option"
  Method :: string
  Params :: RawParams

record ResponseError =
  Code :: int
  Message :: string

record CompletionItem =
  Label :: string
  Kind :: int
  Detail :: string
  InsertText :: string
  InsertTextFormat :: int

datatype result =
    ResultNull
  | ResultInitialize
  | ResultCompletionList bool "CompletionItem list"
  | ResultInlineCompletionList "string list"

datatype frame =
    Response int result "ResponseError option"
  | Notification string string

text \<open>
  What the server does towards its collaborators is recorded in a trace: a frame
  written to the client, a call of the parse service, a context built from a text
  and a tree, a call of the completion backend.
\<close>

datatype event =
    Sent frame
  | ParseCall string string string "tsnode option"
  | ContextBuilt string tsnode int
  | SuggestionAsked ContextInfo

subsection \<open>The parse service\<close>

text \<open>
  \<open>parser.Manager\<close>: the map of languages (a language object may be nil) and the
  tree-sitter parser, whose \<open>ParseCtx\<close> is a field here. A \<open>*sitter.Tree\<close> is its root
  node.
\<close>

record Manager =
  langMap :: "string \<Rightarrow> string option option"
  ParseCtx :: "string \<Rightarrow> tsnode option \<Rightarrow> string \<Rightarrow> string + tsnode"

definition Parse :: "Manager \<Rightarrow> string \<Rightarrow> tsnode option \<Rightarrow> string \<Rightarrow> string + tsnode option" where
  "Parse m langID oldTree content =
    (case langMap m langID of
       None \<Rightarrow> Inr None
     | Some None \<Rightarrow> Inl ''internal error: language object is nil''
     | Some (Some lang) \<Rightarrow>
         (case ParseCtx m lang oldTree content of
            Inl err \<Rightarrow> Inl (''parsing failed: '' @ err)
          | Inr newTree \<Rightarrow> Inr (Some newTree)))"

definition RootNode :: "tsnode \<Rightarrow> nodeRef" where
  "RootNode t = (t, [])"

subsection \<open>The state\<close>

record DocumentState =
  Text :: string
  Version :: int
  DocLanguageID :: string
  Tree :: "tsnode option"

text \<open>
  A \<open>*time.Timer\<close> made by \<open>time.AfterFunc\<close> is a handle (a number, fresh for each
  timer); the runtime keeps the timers that are armed, each with the time at which
  it fires and what its callback has captured: the URI and the tree of the document
  before the change.
\<close>

record Timer =
  handle :: nat
  deadline :: nat
  timerURI :: string
  capturedTree :: "tsnode option"

datatype aiError = Canceled | DeadlineExceeded | BackendError string

record Server =
  initialized :: bool
  shutdown :: bool
  documents :: "string \<Rightarrow> DocumentState option"
  parser :: "Manager option"
  aiClient :: "(ContextInfo \<Rightarrow> aiError + string) option"
  debounceTimers :: "string \<Rightarrow> nat option"
  debounceDuration :: nat
  clock :: nat
  armed :: "Timer list"
  nextHandle :: nat
  trace :: "event list"

definition emit :: "event \<Rightarrow> Server \<Rightarrow> Server" where
  "emit e s = s\<lparr>trace := trace s @ [e]\<rparr>"

text \<open>\<open>sendResponse\<close> and \<open>sendNotification\<close> write one frame; the writer does not fail.\<close>

definition sendResponse :: "int \<Rightarrow> result \<Rightarrow> ResponseError option \<Rightarrow> Server \<Rightarrow> string option \<times> Server" where
  "sendResponse reqID res respErr s = (None, emit (Sent (Response reqID res respErr)) s)"

definition sendNotification :: "string \<Rightarrow> string \<Rightarrow> Server \<Rightarrow> Server" where
  "sendNotification method params s = emit (Sent (Notification method params)) s"

definition logToClient :: "string \<Rightarrow> Server \<Rightarrow> Server" where
  "logToClient message s =
    (if \<not> initialized s then s else sendNotification ''window/logMessage'' message s)"

definition StopTimer :: "nat \<Rightarrow> Server \<Rightarrow> Server" where
  "StopTimer h s = s\<lparr>armed := filter (\<lambda>t. handle t \<noteq> h) (armed s)\<rparr>"

definition parseDocument :: "string \<Rightarrow> string \<Rightarrow> string \<Rightarrow> tsnode option \<Rightarrow> Server \<Rightarrow> Server" where
  "parseDocument docURI langID content oldTree s =
    (case parser s of
       None \<Rightarrow> s
     | Some m \<Rightarrow>
        (let s = emit (ParseCall docURI langID content oldTree) s;
             parsed = Parse m langID oldTree content;
             newTree = (case parsed of Inl parseErr \<Rightarrow> None | Inr t \<Rightarrow> t);
             s = (case parsed of
                    Inl parseErr \<Rightarrow> logToClient (''Error parsing: '' @ parseErr) s
                  | Inr t \<Rightarrow> s)
         in case documents s docURI of
              Some currentState \<Rightarrow>
                s\<lparr>documents := (documents s)(docURI \<mapsto> currentState\<lparr>Tree := newTree\<rparr>)\<rparr>
            | None \<Rightarrow> s))"

subsection \<open>Lifecycle handlers\<close>

definition handleInitialize :: "RequestMessage \<Rightarrow> Server \<Rightarrow> string option \<times> Server" where
  "handleInitialize req s =
    (case ID req of
       None \<Rightarrow> (Some ''initialize request missing ID'', s)
     | Some i \<Rightarrow>
        if initialized s
        then sendResponse i ResultNull
               (Some \<lparr>Code = -32002, Message = ''Server already initialized''\<rparr>) s
        else if \<not> decodes (Params req)
        then sendResponse i ResultNull
               (Some \<lparr>Code = -32602, Message = ''Failed to unmarshal initialize params''\<rparr>) s
        else sendResponse i ResultInitialize None s)"

definition handleInitialized :: "RequestMessage \<Rightarrow> Server \<Rightarrow> string option \<times> Server" where
  "handleInitialized req s =
    (let s = s\<lparr>initialized := True\<rparr>;
         s = logToClient ''Grasshopper LSP server connection initialized.'' s
     in (None, s))"

definition handleShutdown :: "RequestMessage \<Rightarrow> Server \<Rightarrow> string option \<times> Server" where
  "handleShutdown req s =
    (if shutdown s then
       (case ID req of Some i \<Rightarrow> sendResponse i ResultNull None s | None \<Rightarrow> (None, s))
     else
       (let s = s\<lparr>shutdown := True\<rparr>
        in case ID req of
             Some i \<Rightarrow> (None, snd (sendResponse i ResultNull None s))
           | None \<Rightarrow> (None, s)))"

definition handleExit :: "RequestMessage \<Rightarrow> Server \<Rightarrow> string option \<times> Server" where
  "handleExit req s = (None, s)"

subsection \<open>Document synchronisation\<close>

definition handleDidOpen :: "RequestMessage \<Rightarrow> Server \<Rightarrow> string option \<times> Server" where
  "handleDidOpen req s =
    (if \<not> initialized s then (Some ''received didOpen before initialized'', s)
     else if \<not> decodes (Params req) then (None, s)
     else
       (let docURI = p_uri (Params req);
            docText = p_text (Params req);
            docLang = p_languageId (Params req);
            docVersion = p_version (Params req);
            s = s\<lparr>documents := (documents s)(docURI \<mapsto>
                  \<lparr>Text = docText, Version = docVersion, DocLanguageID = docLang, Tree = None\<rparr>)\<rparr>;
            s = parseDocument docURI docLang docText None s
        in (None, s)))"

definition handleDidSave :: "RequestMessage \<Rightarrow> Server \<Rightarrow> string option \<times> Server" where
  "handleDidSave req s =
    (if \<not> initialized s then (Some ''received didSave before initialized'', s) else (None, s))"

definition handleDidClose :: "RequestMessage \<Rightarrow> Server \<Rightarrow> string option \<times> Server" where
  "handleDidClose req s =
    (if \<not> initialized s then (Some ''received didClose before initialized'', s)
     else if \<not> decodes (Params req) then (None, s)
     else
       (let docURI = p_uri (Params req);
            s = (case debounceTimers s docURI of
                   Some timer \<Rightarrow>
                     (StopTimer timer s)\<lparr>debounceTimers := (debounceTimers s)(docURI := None)\<rparr>
                 | None \<Rightarrow> s);
            s = (case documents s docURI of
                   Some d \<Rightarrow> s\<lparr>documents := (documents s)(docURI := None)\<rparr>
                 | None \<Rightarrow> s)
        in (None, s)))"

text \<open>
  The callback of a debounce timer: \<open>docURI\<close>, \<open>newScheduledTimer\<close> and \<open>oldTree\<close> are
  what the closure has captured.
\<close>

definition timerCleanup :: "string \<Rightarrow> nat \<Rightarrow> Server \<Rightarrow> Server" where
  "timerCleanup docURI newScheduledTimer s =
    (case debounceTimers s docURI of
       Some currentTimerInMap \<Rightarrow>
         if currentTimerInMap = newScheduledTimer
         then s\<lparr>debounceTimers := (debounceTimers s)(docURI := None)\<rparr>
         else s
     | None \<Rightarrow> s)"

definition callback :: "string \<Rightarrow> nat \<Rightarrow> tsnode option \<Rightarrow> Server \<Rightarrow> Server" where
  "callback docURI newScheduledTimer oldTree s =
    (case documents s docURI of
       None \<Rightarrow> timerCleanup docURI newScheduledTimer s
     | Some finalState \<Rightarrow>
        (let currentTextBytes = Text finalState;
             currentLangID = DocLanguageID finalState;
             treeToParseFrom = oldTree;
             s = parseDocument docURI currentLangID currentTextBytes treeToParseFrom s
         in timerCleanup docURI newScheduledTimer s))"

definition AfterFunc :: "string \<Rightarrow> tsnode option \<Rightarrow> Server \<Rightarrow> nat \<times> Server" where
  \<comment> \<open>\<open>time.AfterFunc(s.debounceDuration, callback)\<close>: a new armed timer\<close>
  "AfterFunc docURI oldTree s =
    (nextHandle s,
     s\<lparr>armed := armed s @
            [\<lparr>handle = nextHandle s, deadline = clock s + debounceDuration s,
              timerURI = docURI, capturedTree = oldTree\<rparr>],
       nextHandle := nextHandle s + 1\<rparr>)"

definition handleDidChange :: "RequestMessage \<Rightarrow> Server \<Rightarrow> string option \<times> Server" where
  "handleDidChange req s =
    (if \<not> initialized s then (Some ''received didChange before initialized'', s)
     else if \<not> decodes (Params req) then (None, s)
     else
       (let docURI = p_uri (Params req);
            docVersion = p_version (Params req)
        in case documents s docURI of
             None \<Rightarrow> (None, s)
           | Some currentState \<Rightarrow>
               if length (p_contentChanges (Params req)) > 0 then
                 (let newText = last (p_contentChanges (Params req));
                      oldTree = Tree currentState;
                      currentState = currentState\<lparr>Text := newText, Version := docVersion\<rparr>;
                      s = s\<lparr>documents := (documents s)(docURI \<mapsto> currentState)\<rparr>;
                      s = (case debounceTimers s docURI of
                             Some oldTimer \<Rightarrow> StopTimer oldTimer s
                           | None \<Rightarrow> s);
                      (newScheduledTimer, s) = AfterFunc docURI oldTree s;
                      s = s\<lparr>debounceTimers := (debounceTimers s)(docURI \<mapsto> newScheduledTimer)\<rparr>
                  in (None, s))
               else (None, s)))"

subsection \<open>Completion handlers\<close>

text \<open>
  The check of both completion handlers for a missing or stale tree, with the
  synchronous parse and the second read of the document. \<open>None\<close> stands for the
  two early returns with an empty list.
\<close>

definition isStale :: "string \<Rightarrow> tsnode option \<Rightarrow> bool" where
  "isStale docTextBytes docTree =
    (case docTree of
       None \<Rightarrow> True
     | Some t \<Rightarrow> int (length docTextBytes) \<noteq> uint (endByte (fst (RootNode t))))"

definition reparseNow ::
  "string \<Rightarrow> string \<Rightarrow> string \<Rightarrow> Server \<Rightarrow> (tsnode \<times> string) option \<times> Server" where
  "reparseNow docURI docLangID docTextBytes s =
    (let s = parseDocument docURI docLangID docTextBytes None s
     in case documents s docURI of
          None \<Rightarrow> (None, s)
        | Some docState \<Rightarrow>
            (case Tree docState of
               None \<Rightarrow> (None, s)
             | Some t \<Rightarrow> (Some (t, Text docState), s)))"

definition refreshTree ::
  "string \<Rightarrow> string \<Rightarrow> string \<Rightarrow> tsnode option \<Rightarrow> Server \<Rightarrow> (tsnode \<times> string) option \<times> Server" where
  "refreshTree docURI docLangID docTextBytes docTree s =
    (case docTree of
       None \<Rightarrow> reparseNow docURI docLangID docTextBytes s
     | Some t \<Rightarrow>
         if int (length docTextBytes) \<noteq> uint (endByte (fst (RootNode t)))
         then reparseNow docURI docLangID docTextBytes s
         else (Some (t, docTextBytes), s))"

text \<open>
  Steps 1 to 4 of both handlers: position to offset, node at the cursor, context,
  backend call. \<open>None\<close> stands for every return with an empty list.
\<close>

definition suggestionFor ::
  "(nodeRef \<Rightarrow> Point \<Rightarrow> Point \<Rightarrow> nodeRef option) \<Rightarrow> (ContextInfo \<Rightarrow> aiError + string) \<Rightarrow>
   string \<Rightarrow> tsnode \<Rightarrow> Position \<Rightarrow> string \<Rightarrow> string \<Rightarrow> Server \<Rightarrow> string option \<times> Server" where
  "suggestionFor D client docTextBytes docTree pos docLangID docURI s =
    (case PositionToOffset docTextBytes pos of
       Inl err \<Rightarrow> (None, s)
     | Inr byteOffset \<Rightarrow>
        (let rootNode = RootNode docTree;
             point = calculatePointFromOffset docTextBytes byteOffset;
             cursorNode = D rootNode point point;
             s = emit (ContextBuilt docTextBytes docTree byteOffset) s
         in case ExtractContext D docTextBytes (Some rootNode) cursorNode byteOffset docLangID docURI of
              Inl err \<Rightarrow> (None, s)
            | Inr extractedContext \<Rightarrow>
               (let s = emit (SuggestionAsked extractedContext) s
                in case client extractedContext of
                     Inl err \<Rightarrow> (None, s)
                   | Inr aiSuggestionText \<Rightarrow>
                       if aiSuggestionText = [] then (None, s) else (Some aiSuggestionText, s))))"

definition ContainsAny :: "string \<Rightarrow> string \<Rightarrow> bool" where
  "ContainsAny s chars = (\<exists>c \<in> set s. c \<in> set chars)"

definition Contains :: "string \<Rightarrow> string \<Rightarrow> bool" where
  "Contains s substr = (Index s substr \<noteq> -1)"

definition completionItems :: "string \<Rightarrow> CompletionItem list" where
  "completionItems aiSuggestionText =
    (if aiSuggestionText \<noteq> [] then
       [\<lparr>Label = aiSuggestionText, Kind = 15, Detail = ''(Grasshopper AI)'',
         InsertText = aiSuggestionText,
         InsertTextFormat =
           (if \<not> ContainsAny aiSuggestionText ''${}'' \<and> \<not> Contains aiSuggestionText ''$0''
            then 1 else 2)\<rparr>]
     else [])"

definition handleInlineCompletion ::
  "(nodeRef \<Rightarrow> Point \<Rightarrow> Point \<Rightarrow> nodeRef option) \<Rightarrow> RequestMessage \<Rightarrow> Server \<Rightarrow> string option \<times> Server" where
  "handleInlineCompletion D req s =
    (if \<not> initialized s then (Some ''received inlineCompletion before initialized'', s)
     else case ID req of
       None \<Rightarrow> (Some ''inlineCompletion request missing ID'', s)
     | Some i \<Rightarrow>
        if \<not> decodes (Params req)
        then sendResponse i ResultNull
               (Some \<lparr>Code = -32602, Message = ''Unmarshal params error''\<rparr>) s
        else
          (let docURI = p_uri (Params req); pos = p_position (Params req)
           in case documents s docURI of
                None \<Rightarrow> sendResponse i (ResultInlineCompletionList []) None s
              | Some docState \<Rightarrow>
                 (case aiClient s of
                    None \<Rightarrow> sendResponse i (ResultInlineCompletionList []) None s
                  | Some client \<Rightarrow>
                     (case refreshTree docURI (DocLanguageID docState) (Text docState)
                             (Tree docState) s of
                        (None, s) \<Rightarrow> sendResponse i (ResultInlineCompletionList []) None s
                      | (Some (docTree, docTextBytes), s) \<Rightarrow>
                         (case suggestionFor D client docTextBytes docTree pos
                                 (DocLanguageID docState) docURI s of
                            (None, s) \<Rightarrow> sendResponse i (ResultInlineCompletionList []) None s
                          | (Some aiSuggestionText, s) \<Rightarrow>
                              sendResponse i (ResultInlineCompletionList [aiSuggestionText])
                                None s)))))"

definition handleCompletion ::
  "(nodeRef \<Rightarrow> Point \<Rightarrow> Point \<Rightarrow> nodeRef option) \<Rightarrow> RequestMessage \<Rightarrow> Server \<Rightarrow> string option \<times> Server" where
  "handleCompletion D req s =
    (if \<not> initialized s then (Some ''received completion before initialized'', s)
     else case ID req of
       None \<Rightarrow> (Some ''completion request missing ID'', s)
     | Some i \<Rightarrow>
        if \<not> decodes (Params req) then sendResponse i (ResultCompletionList False []) None s
        else
          (let docURI = p_uri (Params req); pos = p_position (Params req)
           in case documents s docURI of
                None \<Rightarrow> sendResponse i (ResultCompletionList False []) None s
              | Some docState \<Rightarrow>
                 (case refreshTree docURI (DocLanguageID docState) (Text docState)
                         (Tree docState) s of
                    (None, s) \<Rightarrow> sendResponse i (ResultCompletionList False []) None s
                  | (Some (docTree, docTextBytes), s) \<Rightarrow>
                     (case aiClient s of
                        None \<Rightarrow> sendResponse i (ResultCompletionList False []) None s
                      | Some client \<Rightarrow>
                         (case suggestionFor D client docTextBytes docTree pos
                                 (DocLanguageID docState) docURI s of
                            (None, s) \<Rightarrow> sendResponse i (ResultCompletionList False []) None s
                          | (Some aiSuggestionText, s) \<Rightarrow>
                              sendResponse i
                                (ResultCompletionList False (completionItems aiSuggestionText))
                                None s)))))"

subsection \<open>Dispatch and the read loop\<close>

text \<open>
  \<open>handleMessage\<close> gets the JSON body of a frame; \<open>None\<close> is a body that does not
  decode into a \<open>RequestMessage\<close>. The result is \<open>shutdownRequested\<close> and the state;
  an error returned by a handler is only logged.
\<close>

definition dispatch ::
  "(nodeRef \<Rightarrow> Point \<Rightarrow> Point \<Rightarrow> nodeRef option) \<Rightarrow> RequestMessage \<Rightarrow> Server \<Rightarrow> string option \<times> Server" where
  "dispatch D req s =
    (if Method req = ''initialize'' then handleInitialize req s
     else if Method req = ''initialized'' then handleInitialized req s
     else if Method req = ''shutdown'' then handleShutdown req s
     else if Method req = ''textDocument/didOpen'' then handleDidOpen req s
     else if Method req = ''textDocument/didChange'' then handleDidChange req s
     else if Method req = ''textDocument/didSave'' then handleDidSave req s
     else if Method req = ''textDocument/didClose'' then handleDidClose req s
     else if Method req = ''textDocument/inlineCompletion'' then handleInlineCompletion D req s
     else if Method req = ''textDocument/completion'' then handleCompletion D req s
     else if Method req = ''$/cancelRequest'' then (None, s)
     else if Method req = ''$/setTrace'' then (None, s)
     else
       (case ID req of
          Some i \<Rightarrow>
            (None, snd (sendResponse i ResultNull
               (Some \<lparr>Code = -32601, Message = ''Method not supported: '' @ Method req\<rparr>) s))
        | None \<Rightarrow> (None, s)))"

definition handleMessage ::
  "(nodeRef \<Rightarrow> Point \<Rightarrow> Point \<Rightarrow> nodeRef option) \<Rightarrow> RequestMessage option \<Rightarrow> Server \<Rightarrow> bool \<times> Server" where
  "handleMessage D jsonData s =
    (case jsonData of
       None \<Rightarrow> (False, s)
     | Some req \<Rightarrow>
        if Method req = ''exit'' then (True, snd (handleExit req s))
        else (False, snd (dispatch D req s)))"




subsection \<open>Timers firing\<close>

text \<open>
  The runtime's side of \<open>time.AfterFunc\<close>: a timer that is armed fires once, which
  disarms it and runs its callback. \<open>advanceTo\<close> lets the clock reach a time and
  fires the timers due by then, in the order in which they were armed (deadlines
  grow in that order, the duration being fixed). \<open>deliver\<close> is the arrival of a
  message at a time: the timers due fire first, then the dispatcher handles the
  message; \<open>timeline\<close> delivers a list of timed messages. A callback runs as one
  step, and a timer stopped before its deadline never fires.
\<close>

definition fire :: "Timer \<Rightarrow> Server \<Rightarrow> Server" where
  "fire t s =
    (if t \<in> set (armed s)
     then callback (timerURI t) (handle t) (capturedTree t) (s\<lparr>armed := removeAll t (armed s)\<rparr>)
     else s)"

definition advanceTo :: "nat \<Rightarrow> Server \<Rightarrow> Server" where
  "advanceTo now s =
    (foldl (\<lambda>s t. fire t s) s (filter (\<lambda>t. deadline t \<le> now) (armed s)))\<lparr>clock := now\<rparr>"

definition deliver ::
  "(nodeRef \<Rightarrow> Point \<Rightarrow> Point \<Rightarrow> nodeRef option) \<Rightarrow> Server \<Rightarrow> nat \<times> RequestMessage \<Rightarrow> Server" where
  "deliver D s m = snd (handleMessage D (Some (snd m)) (advanceTo (fst m) s))"

definition timeline ::
  "(nodeRef \<Rightarrow> Point \<Rightarrow> Point \<Rightarrow> nodeRef option) \<Rightarrow> (nat \<times> RequestMessage) list \<Rightarrow> Server \<Rightarrow> Server" where
  "timeline D msgs s = foldl (deliver D) s msgs"

text \<open>
  Arrival times closer together than the interval \<open>d\<close>; a \<open>didChange\<close> for a URI
  that carries a content change; the parse calls for a URI in a trace; the armed
  timers of a URI.
\<close>

fun closeTogether :: "nat \<Rightarrow> nat list \<Rightarrow> bool" where
  "closeTogether d [] = True"
| "closeTogether d [t] = True"
| "closeTogether d (t1 # t2 # ts) = (t1 \<le> t2 \<and> t2 < t1 + d \<and> closeTogether d (t2 # ts))"

definition isChange :: "string \<Rightarrow> RequestMessage \<Rightarrow> bool" where
  "isChange docURI req =
    (Method req = ''textDocument/didChange'' \<and> decodes (Params req) \<and>
     p_uri (Params req) = docURI \<and> p_contentChanges (Params req) \<noteq> [])"

fun isParseOf :: "string \<Rightarrow> event \<Rightarrow> bool" where
  "isParseOf docURI (ParseCall u lang content hint) = (u = docURI)"
| "isParseOf docURI e = False"

definition uriParses :: "string \<Rightarrow> event list \<Rightarrow> event list" where
  "uriParses docURI tr = filter (isParseOf docURI) tr"

definition uriTimers :: "string \<Rightarrow> Server \<Rightarrow> Timer list" where
  "uriTimers docURI s = filter (\<lambda>t. timerURI t = docURI) (armed s)"

subsection \<open>Observations and concrete states\<close>

text \<open>The state \<open>NewServer\<close> returns, for a parser manager and a backend client.\<close>

definition NewServer :: "Manager option \<Rightarrow> (ContextInfo \<Rightarrow> aiError + string) option \<Rightarrow> Server" where
  "NewServer parserManager activeAIClient =
    \<lparr>initialized = False, shutdown = False, documents = (\<lambda>u. None),
     parser = parserManager, aiClient = activeAIClient,
     debounceTimers = (\<lambda>u. None), debounceDuration = 300,
     clock = 0, armed = [], nextHandle = 0, trace = []\<rparr>"

text \<open>
  The responses written for a request id; whether an event is the building of a
  context, whether the text it was built on is as long as the end of the root of its
  tree, whether it was built on a given text and tree; whether an event is a call of
  the parser.
\<close>

fun isResponseFor :: "int \<Rightarrow> event \<Rightarrow> bool" where
  "isResponseFor i (Sent (Response j res err)) = (i = j)"
| "isResponseFor i e = False"

definition responsesFor :: "int \<Rightarrow> event list \<Rightarrow> event list" where
  "responsesFor i tr = filter (isResponseFor i) tr"

fun isContextBuilt :: "event \<Rightarrow> bool" where
  "isContextBuilt (ContextBuilt tx t off) = True"
| "isContextBuilt e = False"

fun freshContext :: "event \<Rightarrow> bool" where
  "freshContext (ContextBuilt tx t off) = (int (length tx) = uint (endByte t))"
| "freshContext e = True"

fun builtFrom :: "string \<Rightarrow> tsnode \<Rightarrow> event \<Rightarrow> bool" where
  "builtFrom tx t (ContextBuilt tx' t' off) = (tx' = tx \<and> t' = t)"
| "builtFrom tx t e = True"

fun isParseCall :: "event \<Rightarrow> bool" where
  "isParseCall (ParseCall u l c h) = True"
| "isParseCall e = False"

text \<open>
  Concrete messages and states: a completion request and a shutdown request; a
  state whose registry holds timer 5 for a document that is not open; a parser that
  returns a single node spanning the content; a state with an open document whose
  tree is stale, and the same state with a tree that ends at the length of the text.
\<close>

definition completionRequest :: RequestMessage where
  "completionRequest =
    \<lparr>ID = Some 1, Method = ''textDocument/completion'',
     Params = \<lparr>decodes = True, p_uri = ''file:///main.go'', p_text = [], p_languageId = [],
               p_version = 0, p_position = \<lparr>Line = 0, Character = 0\<rparr>,
               p_contentChanges = []\<rparr>\<rparr>"


definition supersededState :: Server where
  "supersededState = (NewServer None None)\<lparr>debounceTimers := (\<lambda>u. None)(''file:///main.go'' \<mapsto> 5)\<rparr>"

definition lengthParser :: Manager where
  "lengthParser =
    \<lparr>langMap = (\<lambda>l. if l = ''go'' then Some (Some ''go'') else None),
     ParseCtx = (\<lambda>lang old content.
        if length content < 2 ^ 32
        then Inr (TSNode ''source_file'' 0 (word_of_nat (length content)) [])
        else Inl ''content too large'')\<rparr>"

definition staleDoc :: DocumentState where
  "staleDoc =
    \<lparr>Text = ''package main'', Version = 2, DocLanguageID = ''go'',
     Tree = Some (TSNode ''source_file'' 0 7 [])\<rparr>"

definition staleState :: Server where
  "staleState =
    (NewServer (Some lengthParser) (Some (\<lambda>ctx. Inr ''fmt.Println()'')))
      \<lparr>initialized := True,
       documents := (\<lambda>u. None)(''file:///main.go'' \<mapsto>
         \<lparr>Text = ''package main'', Version = 2, DocLanguageID = ''go'',
          Tree = Some (TSNode ''source_file'' 0 7 [])\<rparr>)\<rparr>"

definition cachedDoc :: DocumentState where
  "cachedDoc =
    \<lparr>Text = ''package main'', Version = 2, DocLanguageID = ''go'',
     Tree = Some (TSNode ''source_file'' 0 12 [])\<rparr>"

definition cachedState :: Server where
  "cachedState =
    (NewServer (Some lengthParser) (Some (\<lambda>ctx. Inr ''fmt.Println()'')))
      \<lparr>initialized := True,
       documents := (\<lambda>u. None)(''file:///main.go'' \<mapsto>
         \<lparr>Text = ''package main'', Version = 2, DocLanguageID = ''go'',
          Tree = Some (TSNode ''source_file'' 0 12 [])\<rparr>)\<rparr>"

definition freshContextInfo :: ContextInfo where
  "freshContextInfo =
    \<lparr>LanguageID = ''go'', Filename = ''file:///main.go'', Prefix = [], Suffix = [],
     CurrentLinePrefix = [], CurrentLineSuffix = ''package main'',
     CursorNode = None, EnclosingNode = None, Imports = []\<rparr>"

text \<open>
  A YAML document of five bytes, a tab followed by \<open>k: v\<close>, that has not been parsed
  yet, with a parser whose tree for it is one error node over bytes 1 to 2; a
  completion request and an inline completion request at the start of that document.
\<close>

definition shortRootParser :: Manager where
  "shortRootParser =
    \<lparr>langMap = (\<lambda>l. if l = ''yaml'' then Some (Some ''yaml'') else None),
     ParseCtx = (\<lambda>lang old content. Inr (TSNode ''ERROR'' 1 2 []))\<rparr>"

definition configText :: string where
  "configText = [CHR 0x09] @ ''k: v''"

definition configRequest :: RequestMessage where
  "configRequest =
    \<lparr>ID = Some 1, Method = ''textDocument/completion'',
     Params = \<lparr>decodes = True, p_uri = ''file:///config.yaml'', p_text = [], p_languageId = [],
               p_version = 0, p_position = \<lparr>Line = 0, Character = 0\<rparr>,
               p_contentChanges = []\<rparr>\<rparr>"

definition configInlineRequest :: RequestMessage where
  "configInlineRequest =
    \<lparr>ID = Some 2, Method = ''textDocument/inlineCompletion'',
     Params = \<lparr>decodes = True, p_uri = ''file:///config.yaml'', p_text = [], p_languageId = [],
               p_version = 0, p_position = \<lparr>Line = 0, Character = 0\<rparr>,
               p_contentChanges = []\<rparr>\<rparr>"

definition configState :: Server where
  "configState =
    (NewServer (Some shortRootParser) (Some (\<lambda>ctx. Inr ''key: value'')))
      \<lparr>initialized := True,
       documents := (\<lambda>u. None)(''file:///config.yaml'' \<mapsto>
         \<lparr>Text = configText, Version = 1, DocLanguageID = ''yaml'', Tree = None\<rparr>)\<rparr>"

definition configContextInfo :: ContextInfo where
  "configContextInfo =
    \<lparr>LanguageID = ''yaml'', Filename = ''file:///config.yaml'', Prefix = [], Suffix = [],
     CurrentLinePrefix = [], CurrentLineSuffix = configText,
     CursorNode = None, EnclosingNode = None, Imports = []\<rparr>"

text \<open>A burst of three changes to the open document of \<open>staleState\<close>, 150 ms apart.\<close>

definition changeTo :: "int \<Rightarrow> string \<Rightarrow> RequestMessage" where
  "changeTo v newText =
    \<lparr>ID = None, Method = ''textDocument/didChange'',
     Params = \<lparr>decodes = True, p_uri = ''file:///main.go'', p_text = [], p_languageId = [],
               p_version = v, p_position = \<lparr>Line = 0, Character = 0\<rparr>,
               p_contentChanges = [newText]\<rparr>\<rparr>"

definition burstMsgs :: "(nat \<times> RequestMessage) list" where
  "burstMsgs =
    [(100, changeTo 3 ''package main f''),
     (250, changeTo 4 ''package main fu''),
     (400, changeTo 5 ''package main func'')]"

section \<open>Cleaning a backend response\<close>

definition cleanSuggestions :: "(string \<Rightarrow> string) \<Rightarrow> string \<Rightarrow> string \<Rightarrow> string" where
  "cleanSuggestions U rawResponse languageID =
    (let langIDLower = ToLower U languageID;
         cleaned = TrimPrefix rawResponse (''```'' @ langIDLower);
         cleaned = TrimPrefix cleaned ''```'';
         cleaned = TrimPrefix cleaned [LF];
         cleaned = TrimSuffix cleaned ''```'';
         cleaned = TrimSuffix cleaned ''<END>'';
         cleaned = TrimSpace cleaned;
         firstNewline = Index cleaned [LF]
     in if firstNewline \<noteq> -1 then slice cleaned 0 (nat firstNewline) else cleaned)"

text \<open>The Azure client cleans its response with a function of its own.\<close>

definition cleanEndTokenAndFences :: "(string \<Rightarrow> string) \<Rightarrow> string \<Rightarrow> string \<Rightarrow> string" where
  "cleanEndTokenAndFences U rawResponse languageID =
    (let cleaned = rawResponse;
         cleaned = TrimSuffix cleaned ''<END>'';
         langIDLower = ToLower U languageID;
         cleaned = TrimPrefix cleaned (''```'' @ langIDLower);
         cleaned = TrimPrefix cleaned ''```'';
         cleaned = TrimSuffix cleaned ''```'';
         cleaned = TrimSpace cleaned
     in cleaned)"

text \<open>
  Each backend client ends \<open>GetSuggestion\<close> by cleaning the text of the response:
  the OpenAI, Anthropic, Gemini and Ollama clients with \<open>cleanSuggestions\<close>, the
  Azure client with \<open>cleanEndTokenAndFences\<close>.
\<close>

datatype provider = OpenAI | Azure | Anthropic | Gemini | Ollama

fun providerSuggestion :: "(string \<Rightarrow> string) \<Rightarrow> provider \<Rightarrow> string \<Rightarrow> string \<Rightarrow> string" where
  "providerSuggestion U Azure rawSuggestion languageID =
     cleanEndTokenAndFences U rawSuggestion languageID"
| "providerSuggestion U p rawSuggestion languageID = cleanSuggestions U rawSuggestion languageID"

subsection \<open>Properties of the cleaning\<close>

lemma Index_ge: "-1 \<le> Index s sub"
  by (induction s) (auto simp: Let_def)

lemma Index_byte_nonneg: "Index s [c] \<noteq> -1 \<Longrightarrow> 0 \<le> Index s [c]"
  using Index_ge [of s "[c]"] by linarith

lemma Index_byte_absent: "Index s [c] = -1 \<Longrightarrow> c \<notin> set s"
proof (induction s)
  case Nil
  then show ?case by simp
next
  case (Cons a s)
  from Cons.prems have "a \<noteq> c"
    by (auto split: if_splits)
  moreover from Cons.prems Index_ge [of s "[c]"] have "Index s [c] = -1"
    by (auto simp: Let_def split: if_splits)
  ultimately show ?case
    using Cons.IH by simp
qed

lemma Index_byte_takeWhile:
  "Index s [c] \<noteq> -1 \<Longrightarrow> take (nat (Index s [c])) s = takeWhile (\<lambda>x. x \<noteq> c) s"
proof (induction s)
  case Nil
  then show ?case by simp
next
  case (Cons a s)
  show ?case
  proof (cases "a = c")
    case True
    then show ?thesis by simp
  next
    case False
    with Cons.prems have ne: "Index s [c] \<noteq> -1"
      by (auto simp: Let_def split: if_splits)
    from Index_byte_nonneg [OF ne] have "nat (Index s [c] + 1) = Suc (nat (Index s [c]))"
      by simp
    with False ne Cons.IH show ?thesis
      by (simp add: Let_def)
  qed
qed

lemma truncate_no_byte:
  "c \<notin> set (if Index s [c] \<noteq> -1 then slice s 0 (nat (Index s [c])) else s)"
proof (cases "Index s [c] = -1")
  case True
  then show ?thesis by (simp add: Index_byte_absent)
next
  case False
  have "c \<notin> set (takeWhile (\<lambda>x. x \<noteq> c) s)"
    by (auto dest: set_takeWhileD)
  with False show ?thesis
    by (simp add: slice_def Index_byte_takeWhile)
qed

text \<open>
  C9 (as amended). The string \<open>cleanSuggestions\<close> returns contains no line feed, for
  every raw response and language id (and whatever the Unicode case tables are), so
  the suggestion of every backend that cleans with it (OpenAI, Anthropic, Gemini,
  Ollama) is a single line.
\<close>

theorem cleanSuggestions_single_line:
  "LF \<notin> set (cleanSuggestions U rawResponse languageID) \<and>
   (p \<noteq> Azure \<longrightarrow> LF \<notin> set (providerSuggestion U p rawResponse languageID))"
proof -
  have a: "LF \<notin> set (cleanSuggestions U r l)" for r l
    unfolding cleanSuggestions_def Let_def by (rule truncate_no_byte)
  then show ?thesis by (cases p) simp_all
qed

theorem cleanSuggestions_single_line_witness:
  "Ollama \<noteq> Azure \<and>
   LF \<notin> set (providerSuggestion (\<lambda>s. s) Ollama (''```go'' @ [LF] @ ''x := 1'' @ [LF] @ ''y := 2'') ''go'')"
  using cleanSuggestions_single_line [of "\<lambda>s. s" "''```go'' @ [LF] @ ''x := 1'' @ [LF] @ ''y := 2''" "''go''" Ollama]
  by simp

text \<open>
  C9 as stated fails for the Azure backend: its cleaning does not cut the text at
  the first line feed, and the two-line response \<open>a\<newline>b\<close> is returned as it is.
\<close>

theorem azure_suggestion_two_lines:
  "LF \<in> set (providerSuggestion (\<lambda>s. s) Azure (''a'' @ [LF] @ ''b'') ''go'')"
  by code_simp


section \<open>Properties of the context extractor\<close>

lemma lineStartLoop_le: "lineStartLoop content c \<le> c"
  by (induction c) auto

lemma lineStartLoop_slice:
  "c \<le> length content \<Longrightarrow>
   slice content (lineStartLoop content c) c = rev (takeWhile (\<lambda>x. x \<noteq> LF) (rev (take c content)))"
proof (induction c)
  case 0
  then show ?case by (simp add: slice_def)
next
  case (Suc n)
  then have n: "n < length content" by simp
  have tk: "take (Suc n) content = take n content @ [content ! n]"
    using n by (simp add: take_Suc_conv_app_nth)
  show ?case
  proof (cases "content ! n = LF")
    case True
    then show ?thesis by (simp add: tk slice_def)
  next
    case False
    have le: "lineStartLoop content n \<le> n" by (rule lineStartLoop_le)
    have "slice content (lineStartLoop content n) (Suc n)
          = slice content (lineStartLoop content n) n @ [content ! n]"
      using n le
      by (simp add: slice_def Suc_diff_le take_Suc_conv_app_nth)
    with False Suc show ?thesis by (simp add: tk)
  qed
qed

lemma lineEndLoop_eq:
  "lineEndLoop content c = c + length (takeWhile (\<lambda>x. x \<noteq> LF) (drop c content))"
proof (induction content c rule: lineEndLoop.induct)
  case (1 content i)
  show ?case
  proof (cases "i < length content \<and> content ! i \<noteq> LF")
    case True
    then have "drop i content = content ! i # drop (Suc i) content"
      by (simp add: Cons_nth_drop_Suc)
    with True 1 show ?thesis
      by (subst lineEndLoop.simps) simp
  next
    case False
    show ?thesis
    proof (cases "i < length content")
      case True
      with False have "drop i content = LF # drop (Suc i) content"
        by (simp add: Cons_nth_drop_Suc [symmetric])
      with False True show ?thesis
        by (subst lineEndLoop.simps) simp
    next
      case False
      then show ?thesis
        by (subst lineEndLoop.simps) simp
    qed
  qed
qed

lemma lineEndLoop_slice:
  "slice content c (lineEndLoop content c) = takeWhile (\<lambda>x. x \<noteq> LF) (drop c content)"
  using takeWhile_eq_take [of "\<lambda>x. x \<noteq> LF" "drop c content"]
  by (simp add: lineEndLoop_eq slice_def)

lemma lineEndLoop_le: "c \<le> length content \<Longrightarrow> lineEndLoop content c \<le> length content"
proof -
  assume "c \<le> length content"
  moreover have "length (takeWhile (\<lambda>x. x \<noteq> LF) (drop c content)) \<le> length (drop c content)"
    by (rule length_takeWhile_le)
  ultimately show ?thesis by (simp add: lineEndLoop_eq)
qed

lemma lineEndLoop_ge: "c \<le> lineEndLoop content c"
  by (simp add: lineEndLoop_eq)

lemma clampOffset_le: "clampOffset content off \<le> length content"
  by (simp add: clampOffset_def)

lemma ExtractContext_lineWindow:
  assumes "ExtractContext D content (Some root) pc off lang fn = Inr ctx"
  shows "CurrentLinePrefix ctx =
           slice content (lineStartLoop content (clampOffset content off)) (clampOffset content off)"
    and "CurrentLineSuffix ctx =
           slice content (clampOffset content off) (lineEndLoop content (clampOffset content off))"
proof -
  let ?c = "clampOffset content off"
  have c: "?c \<le> length content" by (rule clampOffset_le)
  have ls: "lineStartLoop content ?c \<le> ?c" by (rule lineStartLoop_le)
  have le: "?c \<le> lineEndLoop content ?c" by (rule lineEndLoop_ge)
  have cl: "(if off < 0 then 0 else if off > int (length content) then int (length content) else off)
        = int ?c"
    by (simp add: clampOffset_def)
  from assms have ctx: "ctx = projr (ExtractContext D content (Some root) pc off lang fn)"
    by simp
  show "CurrentLinePrefix ctx = slice content (lineStartLoop content ?c) ?c"
    unfolding ctx ExtractContext_def Let_def cl using ls le
    by (simp add: slice_def)
  show "CurrentLineSuffix ctx = slice content ?c (lineEndLoop content ?c)"
    unfolding ctx ExtractContext_def Let_def cl using ls le
    by (simp add: slice_def)
qed

lemma slice_append: "i \<le> j \<Longrightarrow> j \<le> k \<Longrightarrow> slice s i j @ slice s j k = slice s i k"
proof -
  assume ij: "i \<le> j" and jk: "j \<le> k"
  have "take (k - i) (drop i s) = take (j - i) (drop i s) @ take (k - j) (drop (j - i) (drop i s))"
    using ij jk take_add [of "j - i" "k - j" "drop i s"] by simp
  with ij show ?thesis by (simp add: slice_def)
qed

lemma slice_suffix_take: "i \<le> k \<Longrightarrow> suffix (slice s i k) (take k s)"
proof -
  assume "i \<le> k"
  have "slice s i k = drop i (take k s)"
    by (simp add: slice_def drop_take)
  then show ?thesis by (simp add: suffix_drop)
qed

lemma ExtractContext_prefixWindow:
  assumes "ExtractContext D content (Some root) pc off lang fn = Inr ctx"
  shows "Prefix ctx =
           slice content (lineStartLoop content (clampOffset content off) - 2048)
             (lineStartLoop content (clampOffset content off))"
proof -
  let ?c = "clampOffset content off"
  have cl: "(if off < 0 then 0 else if off > int (length content) then int (length content) else off)
        = int ?c"
    by (simp add: clampOffset_def)
  from assms have ctx: "ctx = projr (ExtractContext D content (Some root) pc off lang fn)"
    by simp
  show ?thesis
    unfolding ctx ExtractContext_def Let_def cl prefixContextBytes_def
    by (auto simp: slice_def nat_diff_distrib)
qed

lemma ExtractContext_suffixWindow:
  assumes "ExtractContext D content (Some root) pc off lang fn = Inr ctx"
  shows "length (Suffix ctx) \<le> 256"
proof -
  let ?c = "clampOffset content off"
  have cl: "(if off < 0 then 0 else if off > int (length content) then int (length content) else off)
        = int ?c"
    by (simp add: clampOffset_def)
  from assms have ctx: "ctx = projr (ExtractContext D content (Some root) pc off lang fn)"
    by simp
  show ?thesis
    unfolding ctx ExtractContext_def Let_def cl suffixContextBytes_def
    by (auto simp: slice_def)
qed

lemma ExtractContext_Some:
  "\<exists>ctx. ExtractContext D content (Some root) pc off lang fn = Inr ctx"
  by (simp add: ExtractContext_def Let_def)

lemma ExtractContext_None:
  "ExtractContext D content None pc off lang fn = Inl ''cannot extract context without root node''"
  by (simp add: ExtractContext_def)

text \<open>
  C6 (as amended). Whatever the size of the file, \<open>Prefix\<close> is at most 2048 bytes
  and \<open>Suffix\<close> at most 256 bytes; \<open>Prefix\<close> followed by \<open>CurrentLinePrefix\<close> is
  exactly the bytes of the document that end at the cursor offset; and the current
  line has no cap: \<open>CurrentLinePrefix\<close> is the whole of the cursor's line before the
  cursor, \<open>CurrentLineSuffix\<close> the whole of it after the cursor.
\<close>

theorem ExtractContext_windows:
  assumes "ExtractContext D content rootNode pc off lang fn = Inr ctx"
  shows "length (Prefix ctx) \<le> nat prefixContextBytes \<and>
         length (Suffix ctx) \<le> nat suffixContextBytes \<and>
         suffix (Prefix ctx @ CurrentLinePrefix ctx) (take (clampOffset content off) content) \<and>
         CurrentLinePrefix ctx =
           rev (takeWhile (\<lambda>x. x \<noteq> LF) (rev (take (clampOffset content off) content))) \<and>
         CurrentLineSuffix ctx = takeWhile (\<lambda>x. x \<noteq> LF) (drop (clampOffset content off) content)"
proof -
  let ?c = "clampOffset content off"
  let ?ls = "lineStartLoop content ?c"
  from assms obtain root where root: "rootNode = Some root"
    by (cases rootNode) (simp_all add: ExtractContext_None)
  note ec = assms [unfolded root]
  have c: "?c \<le> length content" by (rule clampOffset_le)
  have ls: "?ls \<le> ?c" by (rule lineStartLoop_le)
  have p: "Prefix ctx = slice content (?ls - 2048) ?ls"
    by (rule ExtractContext_prefixWindow [OF ec])
  have clp: "CurrentLinePrefix ctx = slice content ?ls ?c"
    by (rule ExtractContext_lineWindow(1) [OF ec])
  have cls: "CurrentLineSuffix ctx = slice content ?c (lineEndLoop content ?c)"
    by (rule ExtractContext_lineWindow(2) [OF ec])
  have "length (Prefix ctx) \<le> nat prefixContextBytes"
    by (simp add: p slice_def prefixContextBytes_def)
  moreover have "length (Suffix ctx) \<le> nat suffixContextBytes"
    using ExtractContext_suffixWindow [OF ec] by (simp add: suffixContextBytes_def)
  moreover have "suffix (Prefix ctx @ CurrentLinePrefix ctx) (take ?c content)"
  proof -
    have "Prefix ctx @ CurrentLinePrefix ctx = slice content (?ls - 2048) ?c"
      unfolding p clp using ls by (intro slice_append) simp_all
    moreover have "?ls - 2048 \<le> ?c" using ls by simp
    ultimately show ?thesis by (simp add: slice_suffix_take)
  qed
  moreover have "CurrentLinePrefix ctx =
      rev (takeWhile (\<lambda>x. x \<noteq> LF) (rev (take ?c content)))"
    unfolding clp by (rule lineStartLoop_slice [OF c])
  moreover have "CurrentLineSuffix ctx = takeWhile (\<lambda>x. x \<noteq> LF) (drop ?c content)"
    unfolding cls by (rule lineEndLoop_slice)
  ultimately show ?thesis by blast
qed

theorem ExtractContext_windows_witness:
  "ExtractContext noDescendant exampleDoc (Some exampleRoot) None 22 ''go'' ''main.go''
     = Inr exampleContext \<and>
   length (Prefix exampleContext) \<le> nat prefixContextBytes \<and>
   length (Suffix exampleContext) \<le> nat suffixContextBytes \<and>
   suffix (Prefix exampleContext @ CurrentLinePrefix exampleContext)
     (take (clampOffset exampleDoc 22) exampleDoc) \<and>
   CurrentLinePrefix exampleContext =
     rev (takeWhile (\<lambda>x. x \<noteq> LF) (rev (take (clampOffset exampleDoc 22) exampleDoc))) \<and>
   CurrentLineSuffix exampleContext =
     takeWhile (\<lambda>x. x \<noteq> LF) (drop (clampOffset exampleDoc 22) exampleDoc)"
proof -
  have h: "ExtractContext noDescendant exampleDoc (Some exampleRoot) None 22 ''go'' ''main.go''
     = Inr exampleContext"
    by code_simp
  from ExtractContext_windows [OF h] h show ?thesis by blast
qed

text \<open>
  C6 as stated fails for the current line, which the code does not bound: on a
  document that is one line of 3000 bytes, with the cursor at its end,
  \<open>CurrentLinePrefix\<close> has 3000 bytes, more than either cap of the code.
\<close>

theorem current_line_window_uncapped:
  "map_sum id (\<lambda>ctx. length (CurrentLinePrefix ctx))
     (ExtractContext noDescendant (replicate 3000 (CHR ''a''))
        (Some (TSNode ''source_file'' 0 3000 [], [])) None 3000 ''go'' ''main.go'')
   = Inr 3000"
proof -
  obtain ctx where h: "ExtractContext noDescendant (replicate 3000 (CHR ''a''))
        (Some (TSNode ''source_file'' 0 3000 [], [])) None 3000 ''go'' ''main.go'' = Inr ctx"
    using ExtractContext_Some by blast
  have c: "clampOffset (replicate 3000 (CHR ''a'')) 3000 = 3000"
    by (simp add: clampOffset_def)
  have "CurrentLinePrefix ctx = rev (takeWhile (\<lambda>x. x \<noteq> LF) (rev (take 3000 (replicate 3000 (CHR ''a'')))))"
    using ExtractContext_lineWindow(1) [OF h] lineStartLoop_slice [of 3000 "replicate 3000 (CHR ''a'')"]
    by (simp add: c)
  then have "length (CurrentLinePrefix ctx) = 3000"
    by (simp add: LF_def)
  with h show ?thesis by simp
qed

text \<open>
  C10. \<open>ExtractContext\<close> returns an error exactly when the root node is nil. For a
  root node that is not nil it returns a \<open>ContextInfo\<close>, the same one as for the
  cursor offset clamped into \<open>[0, len(content)]\<close> (an offset inside that range is
  left as it is), with the language id and the file name it was given.
\<close>

theorem ExtractContext_error_iff_nil_root:
  "((\<exists>e. ExtractContext D content rootNode pc off lang fn = Inl e) \<longleftrightarrow> rootNode = None) \<and>
   (rootNode \<noteq> None \<longrightarrow>
      (\<exists>ctx. ExtractContext D content rootNode pc off lang fn = Inr ctx \<and>
             ExtractContext D content rootNode pc (int (clampOffset content off)) lang fn = Inr ctx \<and>
             LanguageID ctx = lang \<and> Filename ctx = fn)) \<and>
   clampOffset content off \<le> length content \<and>
   (0 \<le> off \<and> off \<le> int (length content) \<longrightarrow> int (clampOffset content off) = off)"
proof -
  have cl: "(if off < 0 then 0 else if off > int (length content) then int (length content) else off)
        = int (clampOffset content off)" for off
    by (simp add: clampOffset_def)
  have idem: "clampOffset content (int (clampOffset content off)) = clampOffset content off"
    by (simp add: clampOffset_def)
  show ?thesis
  proof (cases rootNode)
    case None
    then show ?thesis by (simp add: ExtractContext_None clampOffset_def)
  next
    case (Some root)
    have "ExtractContext D content (Some root) pc (int (clampOffset content off)) lang fn
        = ExtractContext D content (Some root) pc off lang fn"
      unfolding ExtractContext_def Let_def cl idem by simp
    moreover obtain ctx where "ExtractContext D content (Some root) pc off lang fn = Inr ctx"
      using ExtractContext_Some by blast
    moreover from this have "LanguageID ctx = lang \<and> Filename ctx = fn"
      by (auto simp: ExtractContext_def Let_def)
    ultimately show ?thesis
      using Some by (auto simp: clampOffset_def)
  qed
qed

theorem ExtractContext_error_iff_nil_root_witness:
  "Some exampleRoot \<noteq> None \<and>
   (\<exists>ctx. ExtractContext noDescendant exampleDoc (Some exampleRoot) None 99 ''go'' ''main.go'' = Inr ctx \<and>
          ExtractContext noDescendant exampleDoc (Some exampleRoot) None
            (int (clampOffset exampleDoc 99)) ''go'' ''main.go'' = Inr ctx \<and>
          LanguageID ctx = ''go'' \<and> Filename ctx = ''main.go'') \<and>
   int (clampOffset exampleDoc 99) = 24 \<and>
   (\<exists>e. ExtractContext noDescendant exampleDoc None None 99 ''go'' ''main.go'' = Inl e)"
proof -
  have a: "Some exampleRoot \<noteq> None" by simp
  have c: "int (clampOffset exampleDoc 99) = 24"
    by (simp add: clampOffset_def exampleDoc_def)
  from ExtractContext_error_iff_nil_root
         [of noDescendant exampleDoc "Some exampleRoot" None 99 "''go''" "''main.go''"]
       ExtractContext_error_iff_nil_root
         [of noDescendant exampleDoc None None 99 "''go''" "''main.go''"]
       a c
  show ?thesis by blast
qed



subsection \<open>The import list\<close>

lemma preorder_children: "preorder n = n # concat (map preorder (children n))"
  by (cases n) simp

lemma GoToNextSibling_nodes:
  "GoToNextSibling (n, st) = Some c \<Longrightarrow> restNodes st = preorder (fst c) @ restNodes (snd c)"
  by (induction "(n, st)" arbitrary: n st rule: GoToNextSibling.induct) (auto simp: restNodes_def)

lemma GoToNextSibling_None:
  "GoToNextSibling (n, (p, rs) # st) = None \<Longrightarrow> rs = []"
  by (cases rs) simp_all

lemma climb_nodes:
  "GoToNextSibling (n, st) = None \<Longrightarrow>
   (case climb (n, st) of
      None \<Rightarrow> restNodes st = []
    | Some c \<Rightarrow> restNodes st = preorder (fst c) @ restNodes (snd c))"
proof (induction st arbitrary: n)
  case Nil
  then show ?case by (simp add: restNodes_def)
next
  case (Cons f st)
  obtain p rs where f: "f = (p, rs)" by (cases f)
  from Cons.prems f have rs: "rs = []"
    by (auto dest: GoToNextSibling_None)
  have rest: "restNodes ((p, rs) # st) = restNodes st"
    by (simp add: rs restNodes_def)
  show ?case
  proof (cases "GoToNextSibling (p, st)")
    case None
    from Cons.IH [OF None] None show ?thesis
      unfolding f by (simp add: rest split: option.splits)
  next
    case (Some c)
    from GoToNextSibling_nodes [OF Some] Some show ?thesis
      unfolding f by (simp add: rest split: option.splits)
  qed
qed

lemma advance_nodes:
  "(case advance (n, st) of
      None \<Rightarrow> preorder n @ restNodes st = [n]
    | Some c \<Rightarrow> preorder n @ restNodes st = n # preorder (fst c) @ restNodes (snd c))"
proof (cases "children n")
  case (Cons c cs)
  then have "advance (n, st) = Some (c, (n, cs) # st)"
    by (simp add: advance_def)
  moreover have "preorder n = n # preorder c @ concat (map preorder cs)"
    using Cons by (simp add: preorder_children)
  ultimately show ?thesis
    by (simp add: restNodes_def)
next
  case Nil
  then have pn: "preorder n = [n]"
    by (simp add: preorder_children)
  from Nil have nofirst: "GoToFirstChild (n, st) = None" by simp
  show ?thesis
  proof (cases "GoToNextSibling (n, st)")
    case (Some c)
    with nofirst have "advance (n, st) = Some c" by (simp add: advance_def)
    with GoToNextSibling_nodes [OF Some] pn show ?thesis by simp
  next
    case None
    with nofirst have "advance (n, st) = climb (n, st)" by (simp add: advance_def)
    with climb_nodes [OF None] pn show ?thesis
      by (simp split: option.splits)
  qed
qed

lemma importLoop_foldl:
  "importLoop content languageID importTypes cur st =
     foldl (\<lambda>st n. importVisit content languageID importTypes n st) st
       (preorder (fst cur) @ restNodes (snd cur))"
proof (induction content languageID importTypes cur st rule: importLoop.induct)
  case (1 content languageID importTypes treeCursor st)
  obtain n fr where cur: "treeCursor = (n, fr)" by (cases treeCursor)
  show ?case
  proof (cases "advance treeCursor")
    case None
    with advance_nodes [of n fr] cur have "preorder n @ restNodes fr = [n]" by simp
    with None cur show ?thesis
      by (subst importLoop.simps) simp
  next
    case (Some c)
    with advance_nodes [of n fr] cur
    have nodes: "preorder n @ restNodes fr = n # preorder (fst c) @ restNodes (snd c)" by simp
    have "importLoop content languageID importTypes treeCursor st =
          importLoop content languageID importTypes c
            (importVisit content languageID importTypes n st)"
      using Some cur by (subst importLoop.simps) simp
    also have "\<dots> = foldl (\<lambda>st n. importVisit content languageID importTypes n st)
            (importVisit content languageID importTypes n st)
            (preorder (fst c) @ restNodes (snd c))"
      using "1.IH" [OF _ _ Some] cur by simp
    finally show ?thesis
      using nodes cur by simp
  qed
qed

lemma firstOccurrences_snoc:
  "firstOccurrences (xs @ [x]) =
     (if x \<in> set (firstOccurrences xs) then firstOccurrences xs else firstOccurrences xs @ [x])"
  by (simp add: firstOccurrences_def)

lemma importVisit_foldl:
  "foldl (\<lambda>st n. importVisit content languageID importTypes n st) ([], \<lambda>_. False) ns =
     (firstOccurrences (cleanedImports content languageID importTypes ns),
      \<lambda>s. s \<in> set (cleanedImports content languageID importTypes ns))"
proof (induction ns rule: rev_induct)
  case Nil
  then show ?case by (simp add: firstOccurrences_def cleanedImports_def)
next
  case (snoc n ns)
  let ?f = "\<lambda>st n. importVisit content languageID importTypes n st"
  let ?xs = "cleanedImports content languageID importTypes ns"
  have set_fo: "set (firstOccurrences xs) = set xs" for xs :: "string list"
    by (simp add: firstOccurrences_def)
  have step: "foldl ?f ([], \<lambda>_. False) (ns @ [n]) =
        importVisit content languageID importTypes n
          (firstOccurrences ?xs, \<lambda>s. s \<in> set ?xs)"
    by (simp add: snoc)
  have app: "cleanedImports content languageID importTypes (ns @ [n]) =
        ?xs @ (if ntype n \<in> set importTypes \<and> cleanImportText (getNodeText n content) languageID \<noteq> []
               then [cleanImportText (getNodeText n content) languageID] else [])"
    by (simp add: cleanedImports_def)
  show ?case
    unfolding step app
    by (auto simp: importVisit_def firstOccurrences_snoc set_fo Let_def fun_eq_iff)
qed

lemma ExtractContext_Imports:
  "ExtractContext D content (Some root) pc off lang fn = Inr ctx \<Longrightarrow>
   Imports ctx = extractImports content (fst root) lang"
  by (auto simp: ExtractContext_def Let_def)

lemma extractImports_eq:
  "extractImports content rootNode lang =
     (case importNodeTypes lang of
        None \<Rightarrow> []
      | Some importTypes \<Rightarrow>
          firstOccurrences (cleanedImports content lang importTypes (preorder rootNode)))"
proof (cases "importNodeTypes lang")
  case None
  then show ?thesis by (simp add: extractImports_def)
next
  case (Some importTypes)
  show ?thesis
  proof (cases "importTypes = []")
    case True
    with Some show ?thesis
      by (simp add: extractImports_def cleanedImports_def firstOccurrences_def)
  next
    case False
    with Some show ?thesis
      by (simp add: extractImports_def importLoop_foldl importVisit_foldl NewTreeCursor_def
          restNodes_def)
  qed
qed

lemma firstOccurrences_distinct: "distinct (firstOccurrences xs)"
  by (simp add: firstOccurrences_def)

lemma firstOccurrences_set: "set (firstOccurrences xs) = set xs"
  by (simp add: firstOccurrences_def)

text \<open>
  C8. For every text, tree and language id, the \<open>Imports\<close> list of \<open>ExtractContext\<close>
  holds each cleaned import string at most once and no empty string; it is the list
  of the non-empty cleaned texts of the import nodes met in one pre-order traversal
  of the whole tree, each kept at its first appearance. For a language id without
  configured import kinds the list is empty.
\<close>

theorem ExtractContext_imports:
  assumes "ExtractContext D content (Some root) pc off lang fn = Inr ctx"
  shows "distinct (Imports ctx) \<and> [] \<notin> set (Imports ctx) \<and>
         (case importNodeTypes lang of
            None \<Rightarrow> Imports ctx = []
          | Some importTypes \<Rightarrow>
              Imports ctx =
                firstOccurrences (cleanedImports content lang importTypes (preorder (fst root))))"
proof -
  have eq: "Imports ctx = extractImports content (fst root) lang"
    by (rule ExtractContext_Imports [OF assms])
  show ?thesis
  proof (cases "importNodeTypes lang")
    case None
    with eq show ?thesis by (simp add: extractImports_eq)
  next
    case (Some importTypes)
    with eq have i: "Imports ctx =
        firstOccurrences (cleanedImports content lang importTypes (preorder (fst root)))"
      by (simp add: extractImports_eq)
    have "[] \<notin> set (cleanedImports content lang importTypes (preorder (fst root)))"
      by (simp add: cleanedImports_def)
    with i Some show ?thesis
      by (simp add: firstOccurrences_distinct firstOccurrences_set)
  qed
qed

theorem ExtractContext_imports_witness:
  "ExtractContext noDescendant importsDoc (Some importsRoot) None 0 ''go'' ''main.go''
     = Inr importsContext \<and>
   distinct (Imports importsContext) \<and> [] \<notin> set (Imports importsContext) \<and>
   (case importNodeTypes ''go'' of
      None \<Rightarrow> Imports importsContext = []
    | Some importTypes \<Rightarrow>
        Imports importsContext =
          firstOccurrences (cleanedImports importsDoc ''go'' importTypes (preorder (fst importsRoot))))"
proof -
  have h: "ExtractContext noDescendant importsDoc (Some importsRoot) None 0 ''go'' ''main.go''
     = Inr importsContext"
    by code_simp
  from ExtractContext_imports [OF h] h show ?thesis by blast
qed


section \<open>Properties of the position translator\<close>

lemma mod_shift: "k * m \<le> b \<Longrightarrow> b < k * m + m \<Longrightarrow> b mod m = b - k * (m::nat)"
proof -
  assume a: "k * m \<le> b" and b: "b < k * m + m"
  from a have "b = (b - k * m) + k * m" by simp
  then have "b mod m = ((b - k * m) + k * m) mod m" by simp
  also have "\<dots> = (b - k * m) mod m" by simp
  also from a b have "\<dots> = b - k * m" by simp
  finally show ?thesis .
qed

lemma mod32: "192 \<le> b \<Longrightarrow> b < 224 \<Longrightarrow> b mod 32 = b - (192::nat)"
  using mod_shift [of 6 32 b] by simp

lemma mod64: "128 \<le> b \<Longrightarrow> b < 192 \<Longrightarrow> b mod 64 = b - (128::nat)"
  using mod_shift [of 2 64 b] by simp

lemma mod16: "224 \<le> b \<Longrightarrow> b < 240 \<Longrightarrow> b mod 16 = b - (224::nat)"
  using mod_shift [of 14 16 b] by simp

lemma mod8: "240 \<le> b \<Longrightarrow> b < 248 \<Longrightarrow> b mod 8 = b - (240::nat)"
  using mod_shift [of 30 8 b] by simp

lemma two_byte_RuneLen:
  assumes "0xC2 \<le> b0" "b0 \<le> 0xDF" "cont b1"
  shows "RuneLen (int ((b0 mod 32) * 64 + b1 mod 64)) = 2"
proof -
  from assms have "b0 mod 32 = b0 - 192" "b1 mod 64 = b1 - 128"
    by (simp_all add: mod32 mod64 cont_def)
  with assms show ?thesis
    by (simp add: RuneLen_def cont_def)
qed

lemma three_byte_RuneLen:
  assumes "0xE0 \<le> b0" "b0 \<le> 0xEF"
    "(if b0 = 0xE0 then 0xA0 else 0x80) \<le> b1" "b1 \<le> (if b0 = 0xED then 0x9F else 0xBF)" "cont b2"
  shows "RuneLen (int ((b0 mod 16) * 4096 + (b1 mod 64) * 64 + b2 mod 64)) = 3"
proof -
  from assms have b1: "128 \<le> b1" "b1 < 192"
    by (auto split: if_splits)
  from assms b1 have m: "b0 mod 16 = b0 - 224" "b1 mod 64 = b1 - 128" "b2 mod 64 = b2 - 128"
    by (simp_all add: mod16 mod64 cont_def)
  from assms(5) have b2: "128 \<le> b2" "b2 < 192"
    by (simp_all add: cont_def)
  consider "b0 = 224" | "b0 = 237" | "225 \<le> b0 \<and> b0 \<le> 236" | "238 \<le> b0"
    using assms(1) by linarith
  then show ?thesis
  proof cases
    case 1
    with assms b1 b2 show ?thesis by (simp add: m RuneLen_def)
  next
    case 2
    with assms b1 b2 show ?thesis by (simp add: m RuneLen_def)
  next
    case 3
    with assms b1 b2 show ?thesis by (simp add: m RuneLen_def)
  next
    case 4
    with assms b1 b2 show ?thesis by (simp add: m RuneLen_def)
  qed
qed

lemma four_byte_RuneLen:
  assumes "0xF0 \<le> b0" "b0 \<le> 0xF4"
    "(if b0 = 0xF0 then 0x90 else 0x80) \<le> b1" "b1 \<le> (if b0 = 0xF4 then 0x8F else 0xBF)"
    "cont b2" "cont b3"
  shows "RuneLen (int ((b0 mod 8) * 262144 + (b1 mod 64) * 4096 + (b2 mod 64) * 64 + b3 mod 64)) = 4"
proof -
  from assms have b1: "128 \<le> b1" "b1 < 192"
    by (auto split: if_splits)
  from assms b1 have m: "b0 mod 8 = b0 - 240" "b1 mod 64 = b1 - 128"
      "b2 mod 64 = b2 - 128" "b3 mod 64 = b3 - 128"
    by (simp_all add: mod8 mod64 cont_def)
  from assms(5,6) have b23: "128 \<le> b2" "b2 < 192" "128 \<le> b3" "b3 < 192"
    by (simp_all add: cont_def)
  consider "b0 = 240" | "b0 = 244" | "241 \<le> b0 \<and> b0 \<le> 243"
    using assms(1,2) by linarith
  then show ?thesis
  proof cases
    case 1
    with assms b1 b23 show ?thesis by (simp add: m RuneLen_def)
  next
    case 2
    with assms b1 b23 show ?thesis by (simp add: m RuneLen_def)
  next
    case 3
    with assms b1 b23 show ?thesis by (simp add: m RuneLen_def)
  qed
qed

lemma decodeBytes_RuneLen:
  assumes "decodeBytes bs = (r, n)" "(r, n) \<noteq> (RuneError, 1)" "bs \<noteq> []"
  shows "RuneLen r = int n"
proof -
  from assms(3) obtain b0 tl where bs: "bs = b0 # tl" by (cases bs) auto
  consider (ascii) "b0 < 0x80"
    | (two) "\<not> b0 < 0x80" "0xC2 \<le> b0 \<and> b0 \<le> 0xDF"
    | (three) "\<not> b0 < 0x80" "\<not> (0xC2 \<le> b0 \<and> b0 \<le> 0xDF)" "0xE0 \<le> b0 \<and> b0 \<le> 0xEF"
    | (four) "\<not> b0 < 0x80" "\<not> (0xC2 \<le> b0 \<and> b0 \<le> 0xDF)" "\<not> (0xE0 \<le> b0 \<and> b0 \<le> 0xEF)"
        "0xF0 \<le> b0 \<and> b0 \<le> 0xF4"
    | (bad) "\<not> b0 < 0x80" "\<not> (0xC2 \<le> b0 \<and> b0 \<le> 0xDF)" "\<not> (0xE0 \<le> b0 \<and> b0 \<le> 0xEF)"
        "\<not> (0xF0 \<le> b0 \<and> b0 \<le> 0xF4)"
    by blast
  then show ?thesis
  proof cases
    case ascii
    with assms(1) bs have "r = int b0" "n = 1" by simp_all
    with ascii show ?thesis by (simp add: RuneLen_def)
  next
    case two
    with bs have d: "decodeBytes bs =
       (case tl of
          b1 # _ \<Rightarrow> if cont b1 then (int ((b0 mod 32) * 64 + b1 mod 64), 2) else (RuneError, 1)
        | _ \<Rightarrow> (RuneError, 1))"
      by simp
    show ?thesis
    proof (cases tl)
      case Nil
      with d assms(1,2) show ?thesis by simp
    next
      case (Cons b1 tl1)
      show ?thesis
      proof (cases "cont b1")
        case True
        with d Cons assms(1) have "r = int ((b0 mod 32) * 64 + b1 mod 64)" "n = 2" by simp_all
        with two True two_byte_RuneLen [of b0 b1] show ?thesis by simp
      next
        case False
        with d Cons assms(1,2) show ?thesis by simp
      qed
    qed
  next
    case three
    with bs have d: "decodeBytes bs =
       (case tl of
          b1 # b2 # _ \<Rightarrow>
            if (if b0 = 0xE0 then 0xA0 else 0x80) \<le> b1 \<and> b1 \<le> (if b0 = 0xED then 0x9F else 0xBF)
               \<and> cont b2
            then (int ((b0 mod 16) * 4096 + (b1 mod 64) * 64 + b2 mod 64), 3)
            else (RuneError, 1)
        | _ \<Rightarrow> (RuneError, 1))"
      by simp
    show ?thesis
    proof (cases tl)
      case Nil
      with d assms(1,2) show ?thesis by simp
    next
      case (Cons b1 tl1)
      note c1 = this
      show ?thesis
      proof (cases tl1)
        case Nil
        with d c1 assms(1,2) show ?thesis by simp
      next
        case (Cons b2 tl2)
        let ?C = "(if b0 = 0xE0 then 0xA0 else 0x80) \<le> b1 \<and> b1 \<le> (if b0 = 0xED then 0x9F else 0xBF)
               \<and> cont b2"
        from d c1 Cons have d': "decodeBytes bs =
            (if ?C then (int ((b0 mod 16) * 4096 + (b1 mod 64) * 64 + b2 mod 64), 3)
             else (RuneError, 1))"
          by simp
        show ?thesis
        proof (cases ?C)
          case True
          with d' assms(1) have "r = int ((b0 mod 16) * 4096 + (b1 mod 64) * 64 + b2 mod 64)" "n = 3"
            by simp_all
          with three True three_byte_RuneLen [of b0 b1 b2] show ?thesis by simp
        next
          case False
          with d' assms(1) have "(r, n) = (RuneError, 1)" by simp
          with assms(2) show ?thesis by simp
        qed
      qed
    qed
  next
    case four
    with bs have d: "decodeBytes bs =
       (case tl of
          b1 # b2 # b3 # _ \<Rightarrow>
            if (if b0 = 0xF0 then 0x90 else 0x80) \<le> b1 \<and> b1 \<le> (if b0 = 0xF4 then 0x8F else 0xBF)
               \<and> cont b2 \<and> cont b3
            then (int ((b0 mod 8) * 262144 + (b1 mod 64) * 4096 + (b2 mod 64) * 64 + b3 mod 64), 4)
            else (RuneError, 1)
        | _ \<Rightarrow> (RuneError, 1))"
      by simp
    show ?thesis
    proof (cases tl)
      case Nil
      with d assms(1,2) show ?thesis by simp
    next
      case (Cons b1 tl1)
      note c1 = this
      show ?thesis
      proof (cases tl1)
        case Nil
        with d c1 assms(1,2) show ?thesis by simp
      next
        case (Cons b2 tl2)
        note c2 = this
        show ?thesis
        proof (cases tl2)
          case Nil
          with d c1 c2 assms(1,2) show ?thesis by simp
        next
          case (Cons b3 tl3)
          let ?C = "(if b0 = 0xF0 then 0x90 else 0x80) \<le> b1 \<and> b1 \<le> (if b0 = 0xF4 then 0x8F else 0xBF)
               \<and> cont b2 \<and> cont b3"
          from d c1 c2 Cons have d': "decodeBytes bs =
            (if ?C then (int ((b0 mod 8) * 262144 + (b1 mod 64) * 4096 + (b2 mod 64) * 64 + b3 mod 64), 4)
             else (RuneError, 1))"
            by simp
          show ?thesis
          proof (cases ?C)
            case True
            with d' assms(1)
            have "r = int ((b0 mod 8) * 262144 + (b1 mod 64) * 4096 + (b2 mod 64) * 64 + b3 mod 64)" "n = 4"
              by simp_all
            with four True four_byte_RuneLen [of b0 b1 b2 b3] show ?thesis by simp
          next
            case False
            with d' assms(1) have "(r, n) = (RuneError, 1)" by simp
            with assms(2) show ?thesis by simp
          qed
        qed
      qed
    qed
  next
    case bad
    have "decodeBytes bs = (RuneError, 1)"
      unfolding bs by (simp only: decodeBytes.simps bad if_False)
    with assms(1,2) show ?thesis by simp
  qed
qed

lemma DecodeRune_RuneLen:
  assumes "p \<noteq> []" "DecodeRune p \<noteq> (RuneError, 1)"
  shows "RuneLen (fst (DecodeRune p)) = int (snd (DecodeRune p))"
proof -
  obtain r n where d: "decodeBytes (map of_char (take 4 p)) = (r, n)"
    by (cases "decodeBytes (map of_char (take 4 p))")
  moreover from assms(2) d have "(r, n) \<noteq> (RuneError, 1)" by (simp add: DecodeRune_def)
  moreover from assms(1) have "map of_char (take 4 p) \<noteq> ([] :: nat list)" by simp
  ultimately have "RuneLen r = int n" by (rule decodeBytes_RuneLen)
  with d show ?thesis by (simp add: DecodeRune_def)
qed

lemma decodeAll_sizes: "sum_list (map snd (decodeAll s)) = length s"
proof (induction s rule: decodeAll.induct)
  case 1
  then show ?case by simp
next
  case (2 b bs)
  with DecodeRune_size [of "b # bs"] show ?case by simp
qed

lemma decodeAll_RuneLen:
  "validUTF8 s \<Longrightarrow> (r, n) \<in> set (decodeAll s) \<Longrightarrow> RuneLen r = int n"
proof (induction s rule: decodeAll.induct)
  case 1
  then show ?case by simp
next
  case (2 b bs)
  from "2.prems"(1) have ne: "DecodeRune (b # bs) \<noteq> (RuneError, 1)"
    and v: "validUTF8 (drop (snd (DecodeRune (b # bs))) (b # bs))"
    by (auto simp: validUTF8_def)
  from "2.prems"(2) consider "(r, n) = DecodeRune (b # bs)"
    | "(r, n) \<in> set (decodeAll (drop (snd (DecodeRune (b # bs))) (b # bs)))"
    by auto
  then show ?case
  proof cases
    case 1
    with DecodeRune_RuneLen [OF _ ne] show ?thesis
      by (metis fst_conv list.distinct(1) snd_conv)
  next
    case 2
    with "2.IH" v show ?thesis by simp
  qed
qed

lemma runeLoop_refColumn:
  "(\<And>r n. (r, n) \<in> set ds \<Longrightarrow> RuneLen r = int n) \<Longrightarrow>
   runeLoop (map fst ds) cnt off ch = off + int (refColumn ds (ch - cnt))"
proof (induction ds arbitrary: cnt off)
  case Nil
  then show ?case by simp
next
  case (Cons d ds)
  obtain r n where d: "d = (r, n)" by (cases d)
  have rl: "RuneLen r = int n" using Cons.prems d by simp
  have ih: "runeLoop (map fst ds) c oo ch = oo + int (refColumn ds (ch - c))" for c oo
    using Cons.IH Cons.prems by simp
  show ?case
    by (simp add: d rl ih Let_def diff_diff_eq)
qed

lemma refColumn_all:
  "utf16Count (map fst ds) \<le> ch \<Longrightarrow> refColumn ds ch = sum_list (map snd ds)"
proof (induction ds arbitrary: ch)
  case Nil
  then show ?case by simp
next
  case (Cons d ds)
  obtain r n where d: "d = (r, n)" by (cases d)
  have nonneg: "0 \<le> utf16Count rs" for rs
    by (induction rs) auto
  from Cons.prems d nonneg [of "map fst ds"] show ?case
    by (auto simp: Let_def Cons.IH)
qed

lemma lineStartOffset_Suc:
  "lineStartOffset (l # ls) (Suc k) = length l + 1 + lineStartOffset ls k"
  by (simp add: lineStartOffset_def)

lemma scanLoop_reference:
  assumes "currentLine \<le> Line pos" "0 \<le> Character pos"
    "\<forall>l \<in> set (take (Suc (nat (Line pos - currentLine))) ls). length l < MaxScanTokenSize"
    "\<forall>l \<in> set (take (nat (Line pos - currentLine)) ls). dropCR l = l"
    "nat (Line pos - currentLine) < length ls \<longrightarrow>
       validUTF8 (dropCR (ls ! nat (Line pos - currentLine)))"
  shows "scanLoop ls currentLine byteOffset pos content =
     Inr (if nat (Line pos - currentLine) \<ge> length ls then int (length content)
          else byteOffset + int (lineStartOffset ls (nat (Line pos - currentLine)))
               + int (refColumn (decodeAll (dropCR (ls ! nat (Line pos - currentLine))))
                       (Character pos)))"
  using assms
proof (induction ls arbitrary: currentLine byteOffset)
  case Nil
  then show ?case by simp
next
  case (Cons raw rest)
  from Cons.prems(3) have short: "\<not> length raw \<ge> MaxScanTokenSize" by simp
  show ?case
  proof (cases "currentLine = Line pos")
    case True
    let ?ds = "decodeAll (dropCR raw)"
    from Cons.prems(5) True have valid: "validUTF8 (dropCR raw)" by simp
    show ?thesis
    proof (cases "Character pos > utf16Count (runesOf (dropCR raw))")
      case gt: True
      then have "refColumn ?ds (Character pos) = sum_list (map snd ?ds)"
        by (intro refColumn_all) (simp add: runesOf_def)
      then have "refColumn ?ds (Character pos) = length (dropCR raw)"
        by (simp add: decodeAll_sizes)
      with True gt short Cons.prems(2) show ?thesis
        by (simp add: Let_def lineStartOffset_def)
    next
      case False
      have "runeLoop (runesOf (dropCR raw)) 0 0 (Character pos) = int (refColumn ?ds (Character pos))"
        unfolding runesOf_def
        using runeLoop_refColumn [of ?ds 0 0 "Character pos"] decodeAll_RuneLen [OF valid]
        by simp
      with True False short Cons.prems(2) show ?thesis
        by (simp add: Let_def lineStartOffset_def)
    qed
  next
    case False
    with Cons.prems(1) have lt: "currentLine < Line pos" by simp
    then obtain k where k: "nat (Line pos - currentLine) = Suc k"
      and k': "nat (Line pos - (currentLine + 1)) = k"
      by (metis Suc_nat_eq_nat_zadd1 add.commute diff_add_cancel diff_diff_eq diff_ge_0_iff_ge
          less_le_not_le zless_imp_add1_zle)
    from Cons.prems(4) k have nocr: "dropCR raw = raw" by simp
    have ih: "scanLoop rest (currentLine + 1) (byteOffset + int (length raw) + 1) pos content =
      Inr (if k \<ge> length rest then int (length content)
          else (byteOffset + int (length raw) + 1) + int (lineStartOffset rest k)
               + int (refColumn (decodeAll (dropCR (rest ! k))) (Character pos)))"
      using Cons.IH [of "currentLine + 1" "byteOffset + int (length raw) + 1"]
        Cons.prems lt k k'
      by simp
    from False short show ?thesis
      by (simp add: Let_def nocr ih k lineStartOffset_Suc)
  qed
qed

lemma rawLines_concat:
  "LF \<notin> set cur \<Longrightarrow>
   concat (map (\<lambda>l. l @ [LF]) (rawLines s cur)) =
     (if cur @ s = [] then [] else if last (cur @ s) = LF then cur @ s else cur @ s @ [LF])"
proof (induction s arbitrary: cur)
  case Nil
  then show ?case by (cases cur rule: rev_cases) auto
next
  case (Cons c cs)
  show ?case
  proof (cases "c = LF")
    case True
    with Cons.IH [of "[]"] show ?thesis by simp
  next
    case False
    with Cons.prems have "LF \<notin> set (cur @ [c])" by simp
    from Cons.IH [OF this] False show ?thesis by simp
  qed
qed

lemma rawLines_prefix:
  "prefix (concat (map (\<lambda>l. l @ [LF]) (rawLines content []))) (content @ [LF])"
  using rawLines_concat [of "[]" content] by (simp split: if_splits)

lemma line_located:
  assumes "n < length (rawLines content [])"
  shows "slice content (lineStartOffset (rawLines content []) n)
           (lineStartOffset (rawLines content []) n + length (rawLines content [] ! n))
         = rawLines content [] ! n"
proof -
  let ?ls = "rawLines content []"
  let ?f = "\<lambda>l. l @ [LF]"
  let ?A = "concat (map ?f (take n ?ls))"
  let ?l = "?ls ! n"
  from assms have "?ls = take n ?ls @ ?l # drop (Suc n) ?ls"
    by (simp add: id_take_nth_drop)
  then have "concat (map ?f ?ls) = concat (map ?f (take n ?ls @ ?l # drop (Suc n) ?ls))"
    by simp
  then have "concat (map ?f ?ls) = ((?A @ ?l) @ [LF]) @ concat (map ?f (drop (Suc n) ?ls))"
    by simp
  then have "prefix ((?A @ ?l) @ [LF]) (concat (map ?f ?ls))"
    by (metis prefixI)
  from this rawLines_prefix [of content] have "prefix ((?A @ ?l) @ [LF]) (content @ [LF])"
    by (rule prefix_order.trans)
  then have "prefix (?A @ ?l) content"
    by (auto simp: prefix_snoc) (metis append.assoc append_prefixD)
  then obtain zs where "content = ?A @ ?l @ zs"
    by (auto simp: prefix_def)
  then have "slice content (length ?A) (length ?A + length ?l) = ?l"
    by (metis add_diff_cancel_left' append_eq_conv_conj slice_def)
  then show ?thesis by (simp add: lineStartOffset_def)
qed

lemma refColumn_le: "refColumn ds ch \<le> sum_list (map snd ds)"
proof (induction ds arbitrary: ch)
  case Nil
  then show ?case by simp
next
  case (Cons d ds)
  obtain r n where d: "d = (r, n)" by (cases d)
  from Cons.IH show ?case
    by (auto simp: d Let_def intro: add_left_mono)
qed

lemma scanLoop_no_error:
  assumes "currentLine \<le> Line pos" "0 \<le> Character pos"
    "\<forall>l \<in> set (take (Suc (nat (Line pos - currentLine))) ls). length l < MaxScanTokenSize"
  shows "\<exists>off. scanLoop ls currentLine byteOffset pos content = Inr off"
  using assms
proof (induction ls arbitrary: currentLine byteOffset)
  case Nil
  then show ?case by simp
next
  case (Cons raw rest)
  from Cons.prems(3) have short: "\<not> length raw \<ge> MaxScanTokenSize" by simp
  show ?case
  proof (cases "currentLine = Line pos")
    case True
    with short Cons.prems(2) show ?thesis by (simp add: Let_def)
  next
    case False
    with Cons.prems(1) have lt: "currentLine < Line pos" by simp
    then obtain k where k: "nat (Line pos - currentLine) = Suc k"
      and k': "nat (Line pos - (currentLine + 1)) = k"
      by (metis Suc_nat_eq_nat_zadd1 add.commute diff_add_cancel diff_diff_eq diff_ge_0_iff_ge
          less_le_not_le zless_imp_add1_zle)
    have "\<exists>off. scanLoop rest (currentLine + 1) (byteOffset + int (length (dropCR raw)) + 1)
            pos content = Inr off"
      using Cons.IH [of "currentLine + 1"] Cons.prems lt k k' by simp
    with False short show ?thesis by (simp add: Let_def)
  qed
qed

text \<open>
  C4 (as amended). For a line and a character that are not negative, and a document
  whose lines up to the requested one are shorter than the scanner's token limit of
  65536 bytes, \<open>PositionToOffset\<close> returns no error. If moreover no line before the
  requested one ends in a carriage return and the requested line is valid UTF-8, the
  result is the reference offset: the byte offset of the code point at that UTF-16
  column of that line, not past a code point that would exceed the character count.
  A line past the end of the document gives the length of the document; the line
  lies in the document at its start offset, the result lies within the line, and a
  character count that reaches or exceeds the UTF-16 length of the line gives the end
  of the line.
\<close>

theorem PositionToOffset_reference:
  assumes "0 \<le> Line pos" and "0 \<le> Character pos"
    and "\<forall>l \<in> set (take (Suc (nat (Line pos))) (rawLines content [])). length l < MaxScanTokenSize"
  shows "(\<exists>off. PositionToOffset content pos = Inr off) \<and>
    ((\<forall>l \<in> set (take (nat (Line pos)) (rawLines content [])). dropCR l = l) \<and>
     (nat (Line pos) < length (rawLines content []) \<longrightarrow>
        validUTF8 (dropCR (rawLines content [] ! nat (Line pos)))) \<longrightarrow>
     PositionToOffset content pos =
       Inr (int (refOffset content (nat (Line pos)) (Character pos)))) \<and>
    (length (rawLines content []) \<le> nat (Line pos) \<longrightarrow>
       refOffset content (nat (Line pos)) (Character pos) = length content) \<and>
    (nat (Line pos) < length (rawLines content []) \<longrightarrow>
       (let ls = rawLines content []; n = nat (Line pos);
            start = lineStartOffset ls n; line = dropCR (ls ! n)
        in slice content start (start + length (ls ! n)) = ls ! n \<and>
           start \<le> refOffset content n (Character pos) \<and>
           refOffset content n (Character pos) \<le> start + length line \<and>
           (utf16Count (runesOf line) \<le> Character pos \<longrightarrow>
              refOffset content n (Character pos) = start + length line)))"
proof -
  let ?ls = "rawLines content []"
  let ?n = "nat (Line pos)"
  have p2o: "PositionToOffset content pos = scanLoop ?ls 0 0 pos content"
    using assms(1) by (simp add: PositionToOffset_def)
  have n: "nat (Line pos - 0) = ?n" by simp
  have a: "\<exists>off. PositionToOffset content pos = Inr off"
    unfolding p2o using scanLoop_no_error [of 0 pos ?ls 0 content] assms by simp
  have b: "PositionToOffset content pos = Inr (int (refOffset content ?n (Character pos)))"
    if "\<forall>l \<in> set (take ?n ?ls). dropCR l = l"
      and "?n < length ?ls \<longrightarrow> validUTF8 (dropCR (?ls ! ?n))"
    unfolding p2o using scanLoop_reference [of 0 pos ?ls 0 content] assms that
    by (simp add: refOffset_def Let_def)
  have c: "refOffset content ?n (Character pos) = length content" if "length ?ls \<le> ?n"
    using that by (simp add: refOffset_def)
  have d: "let ls = ?ls; n = ?n; start = lineStartOffset ls n; line = dropCR (ls ! n)
        in slice content start (start + length (ls ! n)) = ls ! n \<and>
           start \<le> refOffset content n (Character pos) \<and>
           refOffset content n (Character pos) \<le> start + length line \<and>
           (utf16Count (runesOf line) \<le> Character pos \<longrightarrow>
              refOffset content n (Character pos) = start + length line)"
    if lt: "?n < length ?ls"
  proof -
    let ?line = "dropCR (?ls ! ?n)"
    have r: "refOffset content ?n (Character pos) =
        lineStartOffset ?ls ?n + refColumn (decodeAll ?line) (Character pos)"
      using lt by (simp add: refOffset_def Let_def)
    have "refColumn (decodeAll ?line) (Character pos) \<le> length ?line"
      using refColumn_le [of "decodeAll ?line" "Character pos"] by (simp add: decodeAll_sizes)
    moreover have "refColumn (decodeAll ?line) (Character pos) = length ?line"
      if "utf16Count (runesOf ?line) \<le> Character pos"
      using refColumn_all [of "decodeAll ?line" "Character pos"] that
      by (simp add: decodeAll_sizes runesOf_def)
    ultimately show ?thesis
      using line_located [OF lt] by (simp add: Let_def r)
  qed
  from a b c d show ?thesis by blast
qed

declare decodeAll.simps [simp del]

lemma positionDoc_lines:
  "rawLines positionDoc [] = [''ab'', [CHR 0xF0, CHR 0x9F, CHR 0x98, CHR 0x80] @ ''cd'']"
  by (simp add: positionDoc_def LF_def)

lemma positionDoc_decode:
  "decodeAll ([CHR 0xF0, CHR 0x9F, CHR 0x98, CHR 0x80] @ ''cd'') =
     [(0x1F600, 4), (0x63, 1), (0x64, 1)]"
  by (simp add: decodeAll.simps DecodeRune_def cont_def)

theorem PositionToOffset_reference_witness:
  "PositionToOffset positionDoc \<lparr>Line = 1, Character = 2\<rparr>
     = Inr (int (refOffset positionDoc 1 2)) \<and>
   refOffset positionDoc 1 2 = 7"
proof -
  let ?pos = "\<lparr>Line = 1, Character = 2\<rparr>"
  have h1: "0 \<le> Line ?pos" and h2: "0 \<le> Character ?pos" by simp_all
  have h3: "\<forall>l \<in> set (take (Suc (nat (Line ?pos))) (rawLines positionDoc [])).
      length l < MaxScanTokenSize"
    by (simp add: positionDoc_lines MaxScanTokenSize_def)
  have h4: "\<forall>l \<in> set (take (nat (Line ?pos)) (rawLines positionDoc [])). dropCR l = l"
    by (simp add: positionDoc_lines dropCR_def CR_def)
  have h5: "validUTF8 (dropCR (rawLines positionDoc [] ! nat (Line ?pos)))"
    using positionDoc_decode
    by (simp add: positionDoc_lines dropCR_def CR_def validUTF8_def RuneError_def)
  have r: "refOffset positionDoc 1 2 = 7"
    using positionDoc_decode
    by (simp add: refOffset_def positionDoc_lines dropCR_def CR_def lineStartOffset_def)
  from PositionToOffset_reference [OF h1 h2 h3] h4 h5 r show ?thesis by simp
qed

lemma crlfDoc_lines: "rawLines crlfDoc [] = [[CHR ''a'', CR], ''b'']"
  by (simp add: crlfDoc_def LF_def CR_def)

text \<open>
  C4 as stated fails on a document with CR LF line ends: the scanner strips the
  carriage return and the loop counts one byte for the line end, so for the start
  of line 1 of \<open>a\<^verbatim>\<open>\r\n\<close>b\<close> the function returns 2, the offset of the line feed, and
  not 3, the offset of \<open>b\<close>.
\<close>

theorem crlf_offset_drifts:
  "PositionToOffset crlfDoc \<lparr>Line = 1, Character = 0\<rparr> = Inr 2 \<and>
   refOffset crlfDoc 1 0 = 3 \<and> crlfDoc ! 2 = LF \<and> crlfDoc ! 3 = CHR ''b''"
proof -
  have d: "decodeAll ''b'' = [(0x62, 1)]"
    by (simp add: decodeAll.simps DecodeRune_def)
  have "PositionToOffset crlfDoc \<lparr>Line = 1, Character = 0\<rparr> = Inr 2"
    by (simp add: PositionToOffset_def crlfDoc_lines MaxScanTokenSize_def dropCR_def CR_def
        runesOf_def d Let_def)
  moreover have "refOffset crlfDoc 1 0 = 3"
    by (simp add: refOffset_def crlfDoc_lines lineStartOffset_def dropCR_def CR_def d)
  moreover have "crlfDoc ! 2 = LF \<and> crlfDoc ! 3 = CHR ''b''"
    by (simp add: crlfDoc_def)
  ultimately show ?thesis by simp
qed

text \<open>
  The other way the function errs on an input that is not negative: a line of
  65536 bytes does not fit into the scanner's buffer.
\<close>

lemma rawLines_replicate:
  "a \<noteq> LF \<Longrightarrow> rawLines (replicate n a) cur =
     (if cur @ replicate n a = [] then [] else [cur @ replicate n a])"
proof (induction n arbitrary: cur)
  case 0
  then show ?case by simp
next
  case (Suc n)
  from Suc.IH [OF Suc.prems, of "cur @ [a]"] Suc.prems show ?case
    by (simp add: replicate_app_Cons_same)
qed

lemma long_line_scan_error:
  "PositionToOffset (replicate 65536 (CHR ''a'')) \<lparr>Line = 0, Character = 0\<rparr> = Inl ScanError"
proof -
  have "rawLines (replicate 65536 (CHR ''a'')) [] = [replicate 65536 (CHR ''a'')]"
    by (simp add: rawLines_replicate LF_def)
  then show ?thesis
    by (simp add: PositionToOffset_def MaxScanTokenSize_def)
qed



section \<open>Properties of the server\<close>

lemma dispatch_completion [simp]:
  "Method req = ''textDocument/completion'' \<Longrightarrow> dispatch D req s = handleCompletion D req s"
  by (simp add: dispatch_def)

lemma dispatch_shutdown [simp]:
  "Method req = ''shutdown'' \<Longrightarrow> dispatch D req s = handleShutdown req s"
  by (simp add: dispatch_def)

lemma uninitialized_completion_silent:
  "\<not> initialized s \<Longrightarrow> Method req = ''textDocument/completion'' \<Longrightarrow>
   handleMessage D (Some req) s = (False, s)"
  by (simp add: handleMessage_def handleCompletion_def)

text \<open>
  C2. A completion request that arrives before the \<open>initialized\<close> notification
  carries an id and reaches its handler, which returns an error without writing a
  response; \<open>handleMessage\<close> only logs the error. No response is written for the
  id, where the claim asks for exactly one.
\<close>

theorem completion_before_initialized_unanswered:
  "handleMessage noDescendant (Some completionRequest) (NewServer None None)
     = (False, NewServer None None) \<and>
   ID completionRequest = Some 1 \<and>
   responsesFor 1 (trace (snd (handleMessage noDescendant (Some completionRequest)
                                 (NewServer None None)))) = []"
proof -
  have "\<not> initialized (NewServer None None)"
    by (simp add: NewServer_def)
  moreover have "Method completionRequest = ''textDocument/completion''"
    by (simp add: completionRequest_def)
  ultimately have "handleMessage noDescendant (Some completionRequest) (NewServer None None)
     = (False, NewServer None None)"
    by (rule uninitialized_completion_silent)
  then show ?thesis
    by (simp add: completionRequest_def NewServer_def responsesFor_def)
qed






lemma logToClient_fields [simp]:
  "documents (logToClient msg s) = documents s"
  "debounceTimers (logToClient msg s) = debounceTimers s"
  "armed (logToClient msg s) = armed s"
  "parser (logToClient msg s) = parser s"
  "aiClient (logToClient msg s) = aiClient s"
  "initialized (logToClient msg s) = initialized s"
  "clock (logToClient msg s) = clock s"
  "nextHandle (logToClient msg s) = nextHandle s"
  "debounceDuration (logToClient msg s) = debounceDuration s"
  by (simp_all add: logToClient_def sendNotification_def emit_def)

lemma parseDocument_fields [simp]:
  "debounceTimers (parseDocument u l c t s) = debounceTimers s"
  "armed (parseDocument u l c t s) = armed s"
  "parser (parseDocument u l c t s) = parser s"
  "aiClient (parseDocument u l c t s) = aiClient s"
  "initialized (parseDocument u l c t s) = initialized s"
  "clock (parseDocument u l c t s) = clock s"
  "nextHandle (parseDocument u l c t s) = nextHandle s"
  "debounceDuration (parseDocument u l c t s) = debounceDuration s"
  by (auto simp: parseDocument_def emit_def Let_def split: option.splits sum.splits)

lemma parseDocument_closed:
  "documents s u = None \<Longrightarrow> documents (parseDocument u l c t s) = documents s"
  by (auto simp: parseDocument_def emit_def Let_def split: option.splits sum.splits)

text \<open>
  C3. When the callback of a debounce timer runs, it removes the registry entry of
  its URI if that entry is the timer that fired; if another timer is registered,
  or none, the registry is left as it is (the cleanup step changes nothing at all).
  When the document is not open, the callback changes no document and does
  nothing towards the collaborators, and the store step of a parse changes no
  document either.
\<close>

theorem callback_registry:
  "(debounceTimers s docURI = Some me \<longrightarrow>
      debounceTimers (callback docURI me oldTree s) = (debounceTimers s)(docURI := None)) \<and>
   (debounceTimers s docURI \<noteq> Some me \<longrightarrow>
      debounceTimers (callback docURI me oldTree s) = debounceTimers s \<and>
      timerCleanup docURI me s = s) \<and>
   (documents s docURI = None \<longrightarrow>
      documents (callback docURI me oldTree s) = documents s \<and>
      trace (callback docURI me oldTree s) = trace s \<and>
      documents (parseDocument docURI langID content oldTree s) = documents s)"
  by (auto simp: callback_def timerCleanup_def parseDocument_closed Let_def split: option.splits)

theorem callback_registry_witness:
  "debounceTimers supersededState ''file:///main.go'' \<noteq> Some 3 \<and>
   debounceTimers (callback ''file:///main.go'' 3 None supersededState)
     = debounceTimers supersededState \<and>
   debounceTimers supersededState ''file:///main.go'' = Some 5 \<and>
   debounceTimers (callback ''file:///main.go'' 5 None supersededState)
     = (debounceTimers supersededState)(''file:///main.go'' := None) \<and>
   documents supersededState ''file:///main.go'' = None \<and>
   documents (callback ''file:///main.go'' 3 None supersededState) = documents supersededState"
proof -
  have a: "debounceTimers supersededState ''file:///main.go'' \<noteq> Some 3"
    and b: "debounceTimers supersededState ''file:///main.go'' = Some 5"
    and c: "documents supersededState ''file:///main.go'' = None"
    by (simp_all add: supersededState_def NewServer_def)
  from callback_registry [of supersededState "''file:///main.go''" 3 None]
       callback_registry [of supersededState "''file:///main.go''" 5 None] a b c
  show ?thesis by blast
qed

lemma notBuilt_builtFrom: "\<not> isContextBuilt e \<Longrightarrow> builtFrom tx t e"
  by (cases e) auto

lemma builtFrom_fresh:
  "builtFrom tx t e \<Longrightarrow> int (length tx) = uint (endByte t) \<Longrightarrow> freshContext e"
  by (cases e) auto

lemma reparseNow_result:
  assumes "parser s = Some m" "documents s docURI = Some d"
    "reparseNow docURI lang tx s = (r, s')"
  shows "\<exists>rest. trace s' = trace s @ ParseCall docURI lang tx None # rest \<and>
               (\<forall>e \<in> set rest. \<not> isContextBuilt e \<and> \<not> isParseCall e)"
    and "r = Some (t, tx') \<Longrightarrow> tx' = Text d \<and> Parse m lang None tx = Inr (Some t)"
    and "aiClient s' = aiClient s"
  using assms
  by (auto simp: reparseNow_def parseDocument_def emit_def logToClient_def sendNotification_def
      Let_def split: option.splits sum.splits if_splits)

lemma refreshTree_result:
  assumes "parser s = Some m" "documents s docURI = Some d"
    "refreshTree docURI lang (Text d) (Tree d) s = (r, s')"
  shows "isStale (Text d) (Tree d) \<Longrightarrow>
           \<exists>rest. trace s' = trace s @ ParseCall docURI lang (Text d) None # rest \<and>
               (\<forall>e \<in> set rest. \<not> isContextBuilt e \<and> \<not> isParseCall e)"
    and "isStale (Text d) (Tree d) \<Longrightarrow> r = Some (t, tx) \<Longrightarrow>
           tx = Text d \<and> Parse m lang None (Text d) = Inr (Some t)"
    and "\<not> isStale (Text d) (Tree d) \<Longrightarrow>
           s' = s \<and> Tree d = Some (fst (the r)) \<and> r = Some (fst (the r), Text d) \<and>
           int (length (Text d)) = uint (endByte (fst (the r)))"
    and "aiClient s' = aiClient s"
proof -
  have re: "reparseNow docURI lang (Text d) s = (r, s')" if "isStale (Text d) (Tree d)"
    using that assms(3)
    by (auto simp: refreshTree_def isStale_def RootNode_def split: option.splits if_splits)
  show "\<exists>rest. trace s' = trace s @ ParseCall docURI lang (Text d) None # rest \<and>
               (\<forall>e \<in> set rest. \<not> isContextBuilt e \<and> \<not> isParseCall e)"
    if "isStale (Text d) (Tree d)"
    by (rule reparseNow_result(1) [OF assms(1,2) re [OF that]])
  show "tx = Text d \<and> Parse m lang None (Text d) = Inr (Some t)"
    if "isStale (Text d) (Tree d)" "r = Some (t, tx)"
    by (rule reparseNow_result(2) [OF assms(1,2) re [OF that(1)] that(2)])
  show "s' = s \<and> Tree d = Some (fst (the r)) \<and> r = Some (fst (the r), Text d) \<and>
           int (length (Text d)) = uint (endByte (fst (the r)))"
    if "\<not> isStale (Text d) (Tree d)"
    using that assms(3)
    by (auto simp: refreshTree_def isStale_def RootNode_def split: option.splits if_splits)
  show "aiClient s' = aiClient s"
  proof (cases "isStale (Text d) (Tree d)")
    case True
    from reparseNow_result(3) [OF assms(1,2) re [OF True]] show ?thesis .
  next
    case False
    with assms(3) show ?thesis
      by (auto simp: refreshTree_def isStale_def RootNode_def split: option.splits if_splits)
  qed
qed

lemma suggestionFor_built:
  assumes "suggestionFor D client tx t pos lang docURI s = (r, s')"
  shows "\<exists>new. trace s' = trace s @ new \<and>
           (\<forall>e \<in> set new. \<not> isParseCall e \<and> builtFrom tx t e)"
  using assms
  by (auto simp: suggestionFor_def emit_def Let_def split: sum.splits if_splits)

text \<open>
  What the tail of either handler adds to the trace, from the check of the tree on:
  the check and the synchronous parse, then the events \<open>new2\<close> of steps 1 to 4, if
  they are reached, then the response.
\<close>

lemma checked_tail:
  assumes p: "parser s = Some m" and d: "documents s docURI = Some d"
    and rt: "refreshTree docURI (DocLanguageID d) (Text d) (Tree d) s = (r, s1)"
    and tr: "trace s' = trace s1 @ new2 @ [Sent f]"
    and n2: "case r of None \<Rightarrow> new2 = []
             | Some (t, tx) \<Rightarrow> \<forall>e \<in> set new2. \<not> isParseCall e \<and> builtFrom tx t e"
  shows "\<exists>new. trace s' = trace s @ new \<and>
          (if isStale (Text d) (Tree d)
           then (\<forall>e \<in> set new. \<not> isContextBuilt e) \<or>
                (\<exists>t rest. new = ParseCall docURI (DocLanguageID d) (Text d) None # rest \<and>
                    Parse m (DocLanguageID d) None (Text d) = Inr (Some t) \<and>
                    (\<forall>e \<in> set rest. \<not> isParseCall e \<and> builtFrom (Text d) t e))
           else (\<exists>t. Tree d = Some t \<and>
                    (\<forall>e \<in> set new. \<not> isParseCall e \<and> builtFrom (Text d) t e \<and>
                        freshContext e)))"
proof (cases "isStale (Text d) (Tree d)")
  case True
  from refreshTree_result(1) [OF p d rt True] obtain rest where
    r1: "trace s1 = trace s @ ParseCall docURI (DocLanguageID d) (Text d) None # rest"
      "\<forall>e \<in> set rest. \<not> isContextBuilt e \<and> \<not> isParseCall e" by blast
  let ?new = "ParseCall docURI (DocLanguageID d) (Text d) None # rest @ new2 @ [Sent f]"
  have t: "trace s' = trace s @ ?new" using tr r1(1) by simp
  show ?thesis
  proof (cases r)
    case None
    with n2 have "new2 = []" by simp
    with r1(2) have "\<forall>e \<in> set ?new. \<not> isContextBuilt e" by simp
    with t True show ?thesis by (intro exI [of _ ?new]) simp
  next
    case (Some q)
    obtain t0 tx where q: "q = (t0, tx)" by (cases q)
    from refreshTree_result(2) [OF p d rt True] Some q
    have e: "tx = Text d" "Parse m (DocLanguageID d) None (Text d) = Inr (Some t0)" by auto
    from n2 Some q e(1)
    have "\<forall>e \<in> set new2. \<not> isParseCall e \<and> builtFrom (Text d) t0 e" by simp
    with r1(2) have "\<forall>e \<in> set (rest @ new2 @ [Sent f]).
        \<not> isParseCall e \<and> builtFrom (Text d) t0 e"
      by (auto intro: notBuilt_builtFrom)
    with e(2) have "\<exists>t rest'. ?new = ParseCall docURI (DocLanguageID d) (Text d) None # rest' \<and>
        Parse m (DocLanguageID d) None (Text d) = Inr (Some t) \<and>
        (\<forall>e \<in> set rest'. \<not> isParseCall e \<and> builtFrom (Text d) t e)"
      by blast
    with t True show ?thesis by (intro exI [of _ ?new]) simp
  qed
next
  case False
  from refreshTree_result(3) [OF p d rt False] obtain t0 where
    f: "s1 = s" "Tree d = Some t0" "r = Some (t0, Text d)"
      "int (length (Text d)) = uint (endByte t0)" by blast
  from n2 f(3) have b: "\<forall>e \<in> set new2. \<not> isParseCall e \<and> builtFrom (Text d) t0 e" by simp
  have "\<forall>e \<in> set (new2 @ [Sent f]).
      \<not> isParseCall e \<and> builtFrom (Text d) t0 e \<and> freshContext e"
    using b f(4) by (auto intro: builtFrom_fresh)
  with f(2) have "\<exists>t. Tree d = Some t \<and> (\<forall>e \<in> set (new2 @ [Sent f]).
      \<not> isParseCall e \<and> builtFrom (Text d) t e \<and> freshContext e)" by blast
  moreover have "trace s' = trace s @ (new2 @ [Sent f])" using tr f(1) by simp
  ultimately show ?thesis using False by (intro exI [of _ "new2 @ [Sent f]"]) simp
qed

text \<open>The returns of either handler before the check of the tree.\<close>

lemma unchecked_tail:
  assumes d: "documents s docURI = Some d"
    and tr: "trace s' = trace s @ new" and n: "\<forall>e \<in> set new. \<not> isContextBuilt e \<and> \<not> isParseCall e"
  shows "\<exists>new. trace s' = trace s @ new \<and>
          (if isStale (Text d) (Tree d)
           then (\<forall>e \<in> set new. \<not> isContextBuilt e) \<or>
                (\<exists>t rest. new = ParseCall docURI (DocLanguageID d) (Text d) None # rest \<and>
                    Parse m (DocLanguageID d) None (Text d) = Inr (Some t) \<and>
                    (\<forall>e \<in> set rest. \<not> isParseCall e \<and> builtFrom (Text d) t e))
           else (\<exists>t. Tree d = Some t \<and>
                    (\<forall>e \<in> set new. \<not> isParseCall e \<and> builtFrom (Text d) t e \<and>
                        freshContext e)))"
proof (cases "isStale (Text d) (Tree d)")
  case True
  with tr n show ?thesis by (intro exI [of _ new]) simp
next
  case False
  then obtain t0 where t0: "Tree d = Some t0"
    by (auto simp: isStale_def split: option.splits)
  have "builtFrom (Text d) t0 e \<and> freshContext e" if "\<not> isContextBuilt e" for e
    using that by (cases e) auto
  with n have "\<forall>e \<in> set new. \<not> isParseCall e \<and> builtFrom (Text d) t0 e \<and> freshContext e"
    by blast
  with t0 tr False show ?thesis by (intro exI [of _ new]) auto
qed

lemma handleCompletion_served:
  assumes "parser s = Some m" "documents s (p_uri (Params req)) = Some d"
  shows "\<exists>new. trace (snd (handleCompletion D req s)) = trace s @ new \<and>
          (if isStale (Text d) (Tree d)
           then (\<forall>e \<in> set new. \<not> isContextBuilt e) \<or>
                (\<exists>t rest. new = ParseCall (p_uri (Params req)) (DocLanguageID d) (Text d) None # rest \<and>
                    Parse m (DocLanguageID d) None (Text d) = Inr (Some t) \<and>
                    (\<forall>e \<in> set rest. \<not> isParseCall e \<and> builtFrom (Text d) t e))
           else (\<exists>t. Tree d = Some t \<and>
                    (\<forall>e \<in> set new. \<not> isParseCall e \<and> builtFrom (Text d) t e \<and>
                        freshContext e)))"
proof (cases "initialized s \<and> ID req \<noteq> None \<and> decodes (Params req)")
  case False
  then have "trace (snd (handleCompletion D req s)) = trace s @ [] \<or>
      (\<exists>f. trace (snd (handleCompletion D req s)) = trace s @ [Sent f])"
    by (auto simp: handleCompletion_def sendResponse_def emit_def split: option.splits)
  then show ?thesis
    by (elim disjE exE) (rule unchecked_tail [OF assms(2)], assumption, simp)+
next
  case True
  let ?uri = "p_uri (Params req)"
  from True obtain i where i: "ID req = Some i" by auto
  obtain r s1 where rt: "refreshTree ?uri (DocLanguageID d) (Text d) (Tree d) s = (r, s1)"
    by (cases "refreshTree ?uri (DocLanguageID d) (Text d) (Tree d) s")
  show ?thesis
  proof (cases r)
    case None
    with True i assms(2) rt have "handleCompletion D req s =
        sendResponse i (ResultCompletionList False []) None s1"
      by (simp add: handleCompletion_def Let_def)
    then have "trace (snd (handleCompletion D req s)) =
        trace s1 @ [] @ [Sent (Response i (ResultCompletionList False []) None)]"
      by (simp add: sendResponse_def emit_def)
    from checked_tail [OF assms rt this] None show ?thesis by simp
  next
    case (Some q)
    obtain t tx where q: "q = (t, tx)" by (cases q)
    show ?thesis
    proof (cases "aiClient s1")
      case None
      with True i assms(2) rt Some q have "handleCompletion D req s =
          sendResponse i (ResultCompletionList False []) None s1"
        by (simp add: handleCompletion_def Let_def)
      then have "trace (snd (handleCompletion D req s)) =
          trace s1 @ [] @ [Sent (Response i (ResultCompletionList False []) None)]"
        by (simp add: sendResponse_def emit_def)
      from checked_tail [OF assms rt this] Some q show ?thesis by simp
    next
      case (Some client)
      note cl = this
      obtain r2 s2 where sf: "suggestionFor D client tx t (p_position (Params req))
              (DocLanguageID d) ?uri s1 = (r2, s2)"
        by (cases "suggestionFor D client tx t (p_position (Params req)) (DocLanguageID d) ?uri s1")
      from suggestionFor_built [OF sf] obtain new2 where
        n2: "trace s2 = trace s1 @ new2"
          "\<forall>e \<in> set new2. \<not> isParseCall e \<and> builtFrom tx t e" by blast
      have "\<exists>res. handleCompletion D req s = sendResponse i res None s2"
        using True i assms(2) rt \<open>r = Some q\<close> q cl sf
        by (auto simp: handleCompletion_def Let_def split: option.splits)
      then obtain res where "handleCompletion D req s = sendResponse i res None s2" ..
      then have "trace (snd (handleCompletion D req s)) =
          trace s1 @ new2 @ [Sent (Response i res None)]"
        by (simp add: sendResponse_def emit_def n2(1))
      from checked_tail [OF assms rt this] \<open>r = Some q\<close> q n2(2) show ?thesis by simp
    qed
  qed
qed

lemma handleInlineCompletion_served:
  assumes "parser s = Some m" "documents s (p_uri (Params req)) = Some d"
  shows "\<exists>new. trace (snd (handleInlineCompletion D req s)) = trace s @ new \<and>
          (if isStale (Text d) (Tree d)
           then (\<forall>e \<in> set new. \<not> isContextBuilt e) \<or>
                (\<exists>t rest. new = ParseCall (p_uri (Params req)) (DocLanguageID d) (Text d) None # rest \<and>
                    Parse m (DocLanguageID d) None (Text d) = Inr (Some t) \<and>
                    (\<forall>e \<in> set rest. \<not> isParseCall e \<and> builtFrom (Text d) t e))
           else (\<exists>t. Tree d = Some t \<and>
                    (\<forall>e \<in> set new. \<not> isParseCall e \<and> builtFrom (Text d) t e \<and>
                        freshContext e)))"
proof (cases "initialized s \<and> ID req \<noteq> None \<and> decodes (Params req) \<and> aiClient s \<noteq> None")
  case False
  then have "trace (snd (handleInlineCompletion D req s)) = trace s @ [] \<or>
      (\<exists>f. trace (snd (handleInlineCompletion D req s)) = trace s @ [Sent f])"
    using assms(2)
    by (auto simp: handleInlineCompletion_def sendResponse_def emit_def Let_def
        split: option.splits)
  then show ?thesis
    by (elim disjE exE) (rule unchecked_tail [OF assms(2)], assumption, simp)+
next
  case True
  let ?uri = "p_uri (Params req)"
  from True obtain i client where i: "ID req = Some i" and cl: "aiClient s = Some client"
    by auto
  obtain r s1 where rt: "refreshTree ?uri (DocLanguageID d) (Text d) (Tree d) s = (r, s1)"
    by (cases "refreshTree ?uri (DocLanguageID d) (Text d) (Tree d) s")
  show ?thesis
  proof (cases r)
    case None
    with True i assms(2) rt cl have "handleInlineCompletion D req s =
        sendResponse i (ResultInlineCompletionList []) None s1"
      by (simp add: handleInlineCompletion_def Let_def)
    then have "trace (snd (handleInlineCompletion D req s)) =
        trace s1 @ [] @ [Sent (Response i (ResultInlineCompletionList []) None)]"
      by (simp add: sendResponse_def emit_def)
    from checked_tail [OF assms rt this] None show ?thesis by simp
  next
    case (Some q)
    obtain t tx where q: "q = (t, tx)" by (cases q)
    obtain r2 s2 where sf: "suggestionFor D client tx t (p_position (Params req))
            (DocLanguageID d) ?uri s1 = (r2, s2)"
      by (cases "suggestionFor D client tx t (p_position (Params req)) (DocLanguageID d) ?uri s1")
    from suggestionFor_built [OF sf] obtain new2 where
      n2: "trace s2 = trace s1 @ new2"
        "\<forall>e \<in> set new2. \<not> isParseCall e \<and> builtFrom tx t e" by blast
    have "\<exists>res. handleInlineCompletion D req s = sendResponse i res None s2"
      using True i assms(2) rt \<open>r = Some q\<close> q cl sf
      by (auto simp: handleInlineCompletion_def Let_def split: option.splits)
    then obtain res where "handleInlineCompletion D req s = sendResponse i res None s2" ..
    then have "trace (snd (handleInlineCompletion D req s)) =
        trace s1 @ new2 @ [Sent (Response i res None)]"
      by (simp add: sendResponse_def emit_def n2(1))
    from checked_tail [OF assms rt this] \<open>r = Some q\<close> q n2(2) show ?thesis by simp
  qed
qed

text \<open>
  C1. For a completion request of either kind on an open document, the handler
  running without a timer callback in between. If the cached tree is nil or its
  root ends elsewhere than at the length of the text, a context is built only after
  the synchronous parse of that text, with which the handler starts, and only from
  that text and the tree that this parse returned, whose end is not compared with
  the length of the text again. Otherwise the handler does not parse, and a context
  is built only from the text and the cached tree, whose root ends at the length of
  the text.
\<close>

theorem completion_tree_cached_or_reparsed:
  assumes "Method req = ''textDocument/completion'' \<or> Method req = ''textDocument/inlineCompletion''"
    and "parser s = Some m"
    and "documents s (p_uri (Params req)) = Some d"
  shows "\<exists>new. trace (snd (handleMessage D (Some req) s)) = trace s @ new \<and>
          (if isStale (Text d) (Tree d)
           then (\<forall>e \<in> set new. \<not> isContextBuilt e) \<or>
                (\<exists>t rest. new = ParseCall (p_uri (Params req)) (DocLanguageID d) (Text d) None # rest \<and>
                    Parse m (DocLanguageID d) None (Text d) = Inr (Some t) \<and>
                    (\<forall>e \<in> set rest. \<not> isParseCall e \<and> builtFrom (Text d) t e))
           else (\<exists>t. Tree d = Some t \<and>
                    (\<forall>e \<in> set new. \<not> isParseCall e \<and> builtFrom (Text d) t e \<and>
                        freshContext e)))"
proof -
  from assms(1) consider "Method req = ''textDocument/completion''"
    | "Method req = ''textDocument/inlineCompletion''" by blast
  then show ?thesis
  proof cases
    case 1
    then have "snd (handleMessage D (Some req) s) = snd (handleCompletion D req s)"
      by (simp add: handleMessage_def)
    with handleCompletion_served [OF assms(2,3), of D] show ?thesis by simp
  next
    case 2
    then have "snd (handleMessage D (Some req) s) = snd (handleInlineCompletion D req s)"
      by (simp add: handleMessage_def dispatch_def)
    with handleInlineCompletion_served [OF assms(2,3), of D] show ?thesis by simp
  qed
qed

lemma utf16Count_nonneg: "0 \<le> utf16Count rs"
  by (induction rs) auto

lemma runeLoop_reached: "character \<le> cnt \<Longrightarrow> runeLoop rs cnt off character = off"
  by (cases rs) auto

lemma start_of_package_main:
  "PositionToOffset ''package main'' \<lparr>Line = 0, Character = 0\<rparr> = Inr 0"
  using utf16Count_nonneg [of "runesOf ''package main''"]
  by (simp add: PositionToOffset_def LF_def MaxScanTokenSize_def dropCR_def CR_def Let_def
      runeLoop_reached)

lemma context_of_package_main:
  "ExtractContext noDescendant ''package main''
     (Some (RootNode (TSNode ''source_file'' 0 12 []))) None 0 ''go'' ''file:///main.go''
   = Inr freshContextInfo"
  by code_simp

lemma staleState_run:
  "trace (snd (handleMessage noDescendant (Some completionRequest) staleState)) =
     [ParseCall ''file:///main.go'' ''go'' ''package main'' None,
      ContextBuilt ''package main'' (TSNode ''source_file'' 0 12 []) 0,
      SuggestionAsked freshContextInfo,
      Sent (Response 1 (ResultCompletionList False (completionItems ''fmt.Println()'')) None)]"
proof -
  have n: "noDescendant r pt pt = None" for r pt
    by (simp add: noDescendant_def)
  have prs: "Parse lengthParser ''go'' None ''package main''
      = Inr (Some (TSNode ''source_file'' 0 12 []))"
    by (simp add: Parse_def lengthParser_def)
  show ?thesis
    by (simp add: handleMessage_def dispatch_def handleCompletion_def completionRequest_def
        staleState_def NewServer_def refreshTree_def reparseNow_def parseDocument_def
        RootNode_def suggestionFor_def sendResponse_def emit_def Let_def
        start_of_package_main context_of_package_main [unfolded RootNode_def] n prs)
qed

lemma cachedState_run:
  "trace (snd (handleMessage noDescendant (Some completionRequest) cachedState)) =
     [ContextBuilt ''package main'' (TSNode ''source_file'' 0 12 []) 0,
      SuggestionAsked freshContextInfo,
      Sent (Response 1 (ResultCompletionList False (completionItems ''fmt.Println()'')) None)]"
proof -
  have n: "noDescendant r pt pt = None" for r pt
    by (simp add: noDescendant_def)
  show ?thesis
    by (simp add: handleMessage_def dispatch_def handleCompletion_def completionRequest_def
        cachedState_def NewServer_def refreshTree_def
        RootNode_def suggestionFor_def sendResponse_def emit_def Let_def
        start_of_package_main context_of_package_main [unfolded RootNode_def] n)
qed

theorem completion_tree_cached_or_reparsed_witness:
  "isStale (Text staleDoc) (Tree staleDoc) \<and>
   (\<exists>t rest. trace (snd (handleMessage noDescendant (Some completionRequest) staleState)) =
        trace staleState @ ParseCall ''file:///main.go'' ''go'' ''package main'' None # rest \<and>
      Parse lengthParser ''go'' None ''package main'' = Inr (Some t) \<and>
      list_ex isContextBuilt rest \<and> list_all (builtFrom ''package main'' t) rest \<and>
      \<not> list_ex isParseCall rest) \<and>
   \<not> isStale (Text cachedDoc) (Tree cachedDoc) \<and>
   (\<exists>new. trace (snd (handleMessage noDescendant (Some completionRequest) cachedState)) =
        trace cachedState @ new \<and>
      list_ex isContextBuilt new \<and> list_all freshContext new \<and> \<not> list_ex isParseCall new \<and>
      list_all (builtFrom ''package main'' (TSNode ''source_file'' 0 12 [])) new)"
proof -
  have h1: "Method completionRequest = ''textDocument/completion'' \<or>
      Method completionRequest = ''textDocument/inlineCompletion''"
    by (simp add: completionRequest_def)
  have u: "p_uri (Params completionRequest) = ''file:///main.go''"
    by (simp add: completionRequest_def)
  have h2: "parser staleState = Some lengthParser"
    by (simp add: staleState_def NewServer_def)
  have h3: "documents staleState (p_uri (Params completionRequest)) = Some staleDoc"
    by (simp add: staleState_def NewServer_def completionRequest_def staleDoc_def)
  have st: "isStale (Text staleDoc) (Tree staleDoc)"
    by (simp add: isStale_def staleDoc_def RootNode_def)
  have sd: "Text staleDoc = ''package main''" "DocLanguageID staleDoc = ''go''"
    by (simp_all add: staleDoc_def)
  have tr0: "trace staleState = []"
    by (simp add: staleState_def NewServer_def)
  let ?run = "[ParseCall ''file:///main.go'' ''go'' ''package main'' None,
      ContextBuilt ''package main'' (TSNode ''source_file'' 0 12 []) 0,
      SuggestionAsked freshContextInfo,
      Sent (Response 1 (ResultCompletionList False (completionItems ''fmt.Println()'')) None)]"
  from completion_tree_cached_or_reparsed [OF h1 h2 h3, of noDescendant] st
  obtain new where new:
    "trace (snd (handleMessage noDescendant (Some completionRequest) staleState))
       = trace staleState @ new"
    "(\<forall>e \<in> set new. \<not> isContextBuilt e) \<or>
     (\<exists>t rest. new = ParseCall (p_uri (Params completionRequest)) (DocLanguageID staleDoc)
                        (Text staleDoc) None # rest \<and>
        Parse lengthParser (DocLanguageID staleDoc) None (Text staleDoc) = Inr (Some t) \<and>
        (\<forall>e \<in> set rest. \<not> isParseCall e \<and> builtFrom (Text staleDoc) t e))"
    by auto
  from new(1) tr0 staleState_run have n: "new = ?run" by simp
  then have "\<not> (\<forall>e \<in> set new. \<not> isContextBuilt e)" by simp
  with new(2) obtain t rest where tr:
    "new = ParseCall ''file:///main.go'' ''go'' ''package main'' None # rest"
    "Parse lengthParser ''go'' None ''package main'' = Inr (Some t)"
    "\<forall>e \<in> set rest. \<not> isParseCall e \<and> builtFrom ''package main'' t e"
    unfolding u sd by blast
  from tr(1) n have "list_ex isContextBuilt rest" by auto
  with new(1) tr have stale_part:
    "\<exists>t rest. trace (snd (handleMessage noDescendant (Some completionRequest) staleState)) =
        trace staleState @ ParseCall ''file:///main.go'' ''go'' ''package main'' None # rest \<and>
      Parse lengthParser ''go'' None ''package main'' = Inr (Some t) \<and>
      list_ex isContextBuilt rest \<and> list_all (builtFrom ''package main'' t) rest \<and>
      \<not> list_ex isParseCall rest"
    by (auto simp: list_all_iff list_ex_iff)
  have g2: "parser cachedState = Some lengthParser"
    by (simp add: cachedState_def NewServer_def)
  have g3: "documents cachedState (p_uri (Params completionRequest)) = Some cachedDoc"
    by (simp add: cachedState_def NewServer_def completionRequest_def cachedDoc_def)
  have nst: "\<not> isStale (Text cachedDoc) (Tree cachedDoc)"
    by (simp add: isStale_def cachedDoc_def RootNode_def)
  have cd: "Text cachedDoc = ''package main''"
    "Tree cachedDoc = Some (TSNode ''source_file'' 0 12 [])"
    by (simp_all add: cachedDoc_def)
  have tr1: "trace cachedState = []"
    by (simp add: cachedState_def NewServer_def)
  from completion_tree_cached_or_reparsed [OF h1 g2 g3, of noDescendant] nst
  obtain new' where new':
    "trace (snd (handleMessage noDescendant (Some completionRequest) cachedState))
       = trace cachedState @ new'"
    "\<forall>e \<in> set new'. \<not> isParseCall e \<and>
        builtFrom ''package main'' (TSNode ''source_file'' 0 12 []) e \<and> freshContext e"
    unfolding cd by auto
  from new'(1) tr1 cachedState_run have "new' =
     [ContextBuilt ''package main'' (TSNode ''source_file'' 0 12 []) 0,
      SuggestionAsked freshContextInfo,
      Sent (Response 1 (ResultCompletionList False (completionItems ''fmt.Println()'')) None)]"
    by simp
  then have "list_ex isContextBuilt new'" by simp
  with new' have cached_part:
    "\<exists>new. trace (snd (handleMessage noDescendant (Some completionRequest) cachedState)) =
        trace cachedState @ new \<and>
      list_ex isContextBuilt new \<and> list_all freshContext new \<and> \<not> list_ex isParseCall new \<and>
      list_all (builtFrom ''package main'' (TSNode ''source_file'' 0 12 [])) new"
    by (auto simp: list_all_iff list_ex_iff)
  from st stale_part nst cached_part show ?thesis by blast
qed

text \<open>
  C1 as stated fails when the tree of the synchronous parse does not end at the
  length of the text: after that parse the handlers test the tree for nil only. For
  the five bytes of \<open>configText\<close> and a tree that is one error node over bytes 1 to 2,
  both handlers build the context from this tree and answer with the suggestion.
\<close>

theorem completion_served_on_short_tree:
  "length configText = 5 \<and> endByte (TSNode ''ERROR'' 1 2 []) = 2 \<and>
   trace (snd (handleMessage noDescendant (Some configRequest) configState)) =
     [ParseCall ''file:///config.yaml'' ''yaml'' configText None,
      ContextBuilt configText (TSNode ''ERROR'' 1 2 []) 0,
      SuggestionAsked configContextInfo,
      Sent (Response 1 (ResultCompletionList False (completionItems ''key: value'')) None)] \<and>
   trace (snd (handleMessage noDescendant (Some configInlineRequest) configState)) =
     [ParseCall ''file:///config.yaml'' ''yaml'' configText None,
      ContextBuilt configText (TSNode ''ERROR'' 1 2 []) 0,
      SuggestionAsked configContextInfo,
      Sent (Response 2 (ResultInlineCompletionList [''key: value'']) None)] \<and>
   \<not> list_all freshContext
       (trace (snd (handleMessage noDescendant (Some configRequest) configState))) \<and>
   \<not> list_all freshContext
       (trace (snd (handleMessage noDescendant (Some configInlineRequest) configState)))"
proof -
  have p: "PositionToOffset configText \<lparr>Line = 0, Character = 0\<rparr> = Inr 0"
    using utf16Count_nonneg [of "runesOf configText"]
    by (simp add: PositionToOffset_def LF_def MaxScanTokenSize_def dropCR_def CR_def Let_def
        runeLoop_reached configText_def)
  have e: "ExtractContext noDescendant configText
             (Some (RootNode (TSNode ''ERROR'' 1 2 []))) None 0 ''yaml'' ''file:///config.yaml''
           = Inr configContextInfo"
    by code_simp
  have n: "noDescendant r pt pt = None" for r pt
    by (simp add: noDescendant_def)
  have prs: "Parse shortRootParser ''yaml'' None configText
      = Inr (Some (TSNode ''ERROR'' 1 2 []))"
    by (simp add: Parse_def shortRootParser_def)
  have l: "length configText = 5" by (simp add: configText_def)
  have r1: "trace (snd (handleMessage noDescendant (Some configRequest) configState)) =
     [ParseCall ''file:///config.yaml'' ''yaml'' configText None,
      ContextBuilt configText (TSNode ''ERROR'' 1 2 []) 0,
      SuggestionAsked configContextInfo,
      Sent (Response 1 (ResultCompletionList False (completionItems ''key: value'')) None)]"
    by (simp add: handleMessage_def dispatch_def handleCompletion_def configRequest_def
        configState_def NewServer_def refreshTree_def reparseNow_def parseDocument_def
        RootNode_def suggestionFor_def sendResponse_def emit_def Let_def
        p e [unfolded RootNode_def] n prs)
  have r2: "trace (snd (handleMessage noDescendant (Some configInlineRequest) configState)) =
     [ParseCall ''file:///config.yaml'' ''yaml'' configText None,
      ContextBuilt configText (TSNode ''ERROR'' 1 2 []) 0,
      SuggestionAsked configContextInfo,
      Sent (Response 2 (ResultInlineCompletionList [''key: value'']) None)]"
    by (simp add: handleMessage_def dispatch_def handleInlineCompletion_def
        configInlineRequest_def
        configState_def NewServer_def refreshTree_def reparseNow_def parseDocument_def
        RootNode_def suggestionFor_def sendResponse_def emit_def Let_def
        p e [unfolded RootNode_def] n prs)
  show ?thesis unfolding r1 r2 by (simp add: l)
qed


subsection \<open>Debounced parsing\<close>

lemma uriParses_append [simp]:
  "uriParses u (xs @ ys) = uriParses u xs @ uriParses u ys"
  by (simp add: uriParses_def)

lemma parseDocument_other:
  assumes "u \<noteq> docURI"
  shows "documents (parseDocument u l c h s) docURI = documents s docURI"
    and "uriParses docURI (trace (parseDocument u l c h s)) = uriParses docURI (trace s)"
  using assms
  by (auto simp: parseDocument_def emit_def logToClient_def sendNotification_def Let_def
      uriParses_def split: option.splits sum.splits)

lemma timerCleanup_fields [simp]:
  "documents (timerCleanup u h s) = documents s"
  "trace (timerCleanup u h s) = trace s"
  "armed (timerCleanup u h s) = armed s"
  "initialized (timerCleanup u h s) = initialized s"
  "parser (timerCleanup u h s) = parser s"
  "debounceDuration (timerCleanup u h s) = debounceDuration s"
  "nextHandle (timerCleanup u h s) = nextHandle s"
  "clock (timerCleanup u h s) = clock s"
  by (auto simp: timerCleanup_def split: option.splits)

lemma timerCleanup_other:
  "u \<noteq> docURI \<Longrightarrow> debounceTimers (timerCleanup u h s) docURI = debounceTimers s docURI"
  by (auto simp: timerCleanup_def split: option.splits)

lemma callback_fields [simp]:
  "armed (callback u h old s) = armed s"
  "initialized (callback u h old s) = initialized s"
  "parser (callback u h old s) = parser s"
  "debounceDuration (callback u h old s) = debounceDuration s"
  by (auto simp: callback_def Let_def split: option.splits)

lemma callback_other:
  assumes "u \<noteq> docURI"
  shows "documents (callback u h old s) docURI = documents s docURI"
    and "debounceTimers (callback u h old s) docURI = debounceTimers s docURI"
    and "uriParses docURI (trace (callback u h old s)) = uriParses docURI (trace s)"
  using assms
  by (auto simp: callback_def Let_def parseDocument_other timerCleanup_other split: option.splits)

lemma fire_fields [simp]:
  "initialized (fire t s) = initialized s"
  "parser (fire t s) = parser s"
  "debounceDuration (fire t s) = debounceDuration s"
  by (auto simp: fire_def)

lemma fire_other:
  assumes "timerURI t \<noteq> docURI"
  shows "documents (fire t s) docURI = documents s docURI"
    and "debounceTimers (fire t s) docURI = debounceTimers s docURI"
    and "uriParses docURI (trace (fire t s)) = uriParses docURI (trace s)"
    and "uriTimers docURI (fire t s) = uriTimers docURI s"
proof -
  show "documents (fire t s) docURI = documents s docURI"
    using assms by (simp add: fire_def callback_other)
  show "debounceTimers (fire t s) docURI = debounceTimers s docURI"
    using assms by (simp add: fire_def callback_other)
  show "uriParses docURI (trace (fire t s)) = uriParses docURI (trace s)"
    using assms by (simp add: fire_def callback_other)
  have "filter (\<lambda>x. timerURI x = docURI) (removeAll t xs) = filter (\<lambda>x. timerURI x = docURI) xs"
    for xs
    using assms by (induction xs) auto
  then show "uriTimers docURI (fire t s) = uriTimers docURI s"
    by (simp add: fire_def uriTimers_def)
qed

lemma fire_all_other:
  assumes "\<forall>t \<in> set ts. timerURI t \<noteq> docURI"
  shows "documents (foldl (\<lambda>s t. fire t s) s ts) docURI = documents s docURI
       \<and> debounceTimers (foldl (\<lambda>s t. fire t s) s ts) docURI = debounceTimers s docURI
       \<and> uriParses docURI (trace (foldl (\<lambda>s t. fire t s) s ts)) = uriParses docURI (trace s)
       \<and> uriTimers docURI (foldl (\<lambda>s t. fire t s) s ts) = uriTimers docURI s
       \<and> initialized (foldl (\<lambda>s t. fire t s) s ts) = initialized s
       \<and> parser (foldl (\<lambda>s t. fire t s) s ts) = parser s
       \<and> debounceDuration (foldl (\<lambda>s t. fire t s) s ts) = debounceDuration s"
  using assms
proof (induction ts arbitrary: s)
  case Nil
  then show ?case by simp
next
  case (Cons t ts)
  from Cons.prems have t: "timerURI t \<noteq> docURI" and ts: "\<forall>t \<in> set ts. timerURI t \<noteq> docURI"
    by simp_all
  from Cons.IH [OF ts, of "fire t s"] fire_other [OF t, of s] show ?case
    by simp
qed

lemma advanceTo_quiet:
  assumes "\<forall>t \<in> set (uriTimers docURI s). now < deadline t"
  shows "documents (advanceTo now s) docURI = documents s docURI"
    and "debounceTimers (advanceTo now s) docURI = debounceTimers s docURI"
    and "uriParses docURI (trace (advanceTo now s)) = uriParses docURI (trace s)"
    and "uriTimers docURI (advanceTo now s) = uriTimers docURI s"
    and "initialized (advanceTo now s) = initialized s"
    and "parser (advanceTo now s) = parser s"
    and "debounceDuration (advanceTo now s) = debounceDuration s"
    and "clock (advanceTo now s) = now"
proof -
  let ?due = "filter (\<lambda>t. deadline t \<le> now) (armed s)"
  have "\<forall>t \<in> set ?due. timerURI t \<noteq> docURI"
    using assms by (auto simp: uriTimers_def)
  note f = fire_all_other [OF this, of s]
  show "documents (advanceTo now s) docURI = documents s docURI"
    and "debounceTimers (advanceTo now s) docURI = debounceTimers s docURI"
    and "uriParses docURI (trace (advanceTo now s)) = uriParses docURI (trace s)"
    and "initialized (advanceTo now s) = initialized s"
    and "parser (advanceTo now s) = parser s"
    and "debounceDuration (advanceTo now s) = debounceDuration s"
    and "clock (advanceTo now s) = now"
    using f by (simp_all add: advanceTo_def)
  show "uriTimers docURI (advanceTo now s) = uriTimers docURI s"
    using f by (simp add: advanceTo_def uriTimers_def)
qed

lemma handleDidChange_step:
  assumes "isChange docURI req" "initialized s" "documents s docURI = Some d"
    and "\<forall>t \<in> set (uriTimers docURI s). debounceTimers s docURI = Some (handle t)"
  shows "documents (snd (handleMessage D (Some req) s)) docURI =
           Some (d\<lparr>Text := last (p_contentChanges (Params req)), Version := p_version (Params req)\<rparr>)"
    and "uriTimers docURI (snd (handleMessage D (Some req) s)) =
           [\<lparr>handle = nextHandle s, deadline = clock s + debounceDuration s,
             timerURI = docURI, capturedTree = Tree d\<rparr>]"
    and "debounceTimers (snd (handleMessage D (Some req) s)) docURI = Some (nextHandle s)"
    and "trace (snd (handleMessage D (Some req) s)) = trace s"
    and "initialized (snd (handleMessage D (Some req) s))"
    and "parser (snd (handleMessage D (Some req) s)) = parser s"
    and "debounceDuration (snd (handleMessage D (Some req) s)) = debounceDuration s"
proof -
  let ?s' = "snd (handleMessage D (Some req) s)"
  from assms(1) have m: "Method req = ''textDocument/didChange''" and dec: "decodes (Params req)"
    and u: "p_uri (Params req) = docURI" and ch: "p_contentChanges (Params req) \<noteq> []"
    by (simp_all add: isChange_def)
  have hm: "?s' = snd (handleDidChange req s)"
    using m by (simp add: handleMessage_def dispatch_def)
  have stopped: "filter (\<lambda>t. timerURI t = docURI) (filter (\<lambda>t. handle t \<noteq> h) (armed s)) = []"
    if "debounceTimers s docURI = Some h" for h
    using assms(4) that by (auto simp: uriTimers_def filter_empty_conv)
  have none: "filter (\<lambda>t. timerURI t = docURI) (armed s) = []"
    if "debounceTimers s docURI = None"
    using assms(4) that by (auto simp: uriTimers_def filter_empty_conv)
  show "documents ?s' docURI =
           Some (d\<lparr>Text := last (p_contentChanges (Params req)), Version := p_version (Params req)\<rparr>)"
    unfolding hm using assms(2,3) dec u ch
    by (auto simp: handleDidChange_def Let_def StopTimer_def AfterFunc_def split: option.splits)
  show "uriTimers docURI ?s' =
           [\<lparr>handle = nextHandle s, deadline = clock s + debounceDuration s,
             timerURI = docURI, capturedTree = Tree d\<rparr>]"
    unfolding hm using assms(2,3) dec u ch stopped none
    by (auto simp: handleDidChange_def Let_def StopTimer_def AfterFunc_def uriTimers_def
        split: option.splits)
  show "debounceTimers ?s' docURI = Some (nextHandle s)"
    unfolding hm using assms(2,3) dec u ch
    by (auto simp: handleDidChange_def Let_def StopTimer_def AfterFunc_def split: option.splits)
  show "trace ?s' = trace s"
    unfolding hm using assms(2,3) dec u ch
    by (auto simp: handleDidChange_def Let_def StopTimer_def AfterFunc_def split: option.splits)
  show "initialized ?s'"
    unfolding hm using assms(2,3) dec u ch
    by (auto simp: handleDidChange_def Let_def StopTimer_def AfterFunc_def split: option.splits)
  show "parser ?s' = parser s"
    unfolding hm using assms(2,3) dec u ch
    by (auto simp: handleDidChange_def Let_def StopTimer_def AfterFunc_def split: option.splits)
  show "debounceDuration ?s' = debounceDuration s"
    unfolding hm using assms(2,3) dec u ch
    by (auto simp: handleDidChange_def Let_def StopTimer_def AfterFunc_def split: option.splits)
qed

lemma callback_parse:
  assumes "documents s docURI = Some d" "parser s = Some m"
  shows "uriParses docURI (trace (callback docURI h hint s)) =
           uriParses docURI (trace s) @ [ParseCall docURI (DocLanguageID d) (Text d) hint]"
  using assms
  by (auto simp: callback_def parseDocument_def emit_def logToClient_def sendNotification_def
      Let_def uriParses_def split: option.splits sum.splits)

lemma filter_singleton_split:
  "filter P xs = [x] \<Longrightarrow>
   \<exists>l1 l2. xs = l1 @ x # l2 \<and> (\<forall>y \<in> set l1. \<not> P y) \<and> (\<forall>y \<in> set l2. \<not> P y)"
proof -
  assume "filter P xs = [x]"
  then obtain us vs where xs: "xs = us @ x # vs" and us: "\<forall>u \<in> set us. \<not> P u"
    and vs: "filter P vs = []"
    by (auto simp: filter_eq_Cons_iff)
  from vs have "\<forall>y \<in> set vs. \<not> P y"
    by (simp add: filter_empty_conv)
  with xs us show ?thesis by blast
qed

lemma advanceTo_fires:
  assumes "uriTimers docURI s = [tu]" "deadline tu \<le> now"
    "documents s docURI = Some d" "parser s = Some m"
  shows "uriParses docURI (trace (advanceTo now s)) =
           uriParses docURI (trace s) @
             [ParseCall docURI (DocLanguageID d) (Text d) (capturedTree tu)]"
proof -
  let ?due = "filter (\<lambda>t. deadline t \<le> now) (armed s)"
  let ?F = "foldl (\<lambda>s t. fire t s)"
  have mem: "tu \<in> set (armed s') \<and> timerURI tu = docURI" if "uriTimers docURI s' = [tu]" for s'
  proof -
    from that have "tu \<in> set (filter (\<lambda>t. timerURI t = docURI) (armed s'))"
      by (simp add: uriTimers_def)
    then show ?thesis by simp
  qed
  from mem [OF assms(1)] have tu_uri: "timerURI tu = docURI" by simp
  have "filter (\<lambda>t. timerURI t = docURI) ?due =
        filter (\<lambda>t. deadline t \<le> now) (filter (\<lambda>t. timerURI t = docURI) (armed s))"
    by (simp add: conj_commute)
  also have "\<dots> = [tu]"
    using assms(1,2) by (simp add: uriTimers_def)
  finally obtain l1 l2 where due: "?due = l1 @ tu # l2"
    and l1: "\<forall>t \<in> set l1. timerURI t \<noteq> docURI" and l2: "\<forall>t \<in> set l2. timerURI t \<noteq> docURI"
    using filter_singleton_split [of "\<lambda>t. timerURI t = docURI" ?due tu] by blast
  let ?s1 = "?F s l1"
  note p1 = fire_all_other [OF l1, of s]
  from p1 assms(1) have "uriTimers docURI ?s1 = [tu]" by simp
  from mem [OF this] have "tu \<in> set (armed ?s1)" by simp
  then have f: "fire tu ?s1 =
      callback docURI (handle tu) (capturedTree tu) (?s1\<lparr>armed := removeAll tu (armed ?s1)\<rparr>)"
    by (simp add: fire_def tu_uri)
  have "uriParses docURI (trace (fire tu ?s1)) =
      uriParses docURI (trace ?s1) @ [ParseCall docURI (DocLanguageID d) (Text d) (capturedTree tu)]"
    unfolding f using p1 assms(3,4)
    by (intro callback_parse [where m = m, THEN trans]) simp_all
  with p1 have p2: "uriParses docURI (trace (fire tu ?s1)) =
      uriParses docURI (trace s) @ [ParseCall docURI (DocLanguageID d) (Text d) (capturedTree tu)]"
    by simp
  have "?F s ?due = ?F (fire tu ?s1) l2"
    by (simp add: due)
  with fire_all_other [OF l2, of "fire tu ?s1"] p2 show ?thesis
    by (simp add: advanceTo_def)
qed

lemma deliver_change:
  assumes "isChange docURI (snd m)" "initialized s" "documents s docURI = Some d"
    and "\<forall>t \<in> set (uriTimers docURI s). debounceTimers s docURI = Some (handle t)"
    and "\<forall>t \<in> set (uriTimers docURI s). fst m < deadline t"
  shows "\<exists>d' tu. documents (deliver D s m) docURI = Some d' \<and>
           Text d' = last (p_contentChanges (Params (snd m))) \<and>
           DocLanguageID d' = DocLanguageID d \<and>
           uriTimers docURI (deliver D s m) = [tu] \<and>
           deadline tu = fst m + debounceDuration s \<and>
           debounceTimers (deliver D s m) docURI = Some (handle tu)"
    and "uriParses docURI (trace (deliver D s m)) = uriParses docURI (trace s)"
    and "initialized (deliver D s m)"
    and "parser (deliver D s m) = parser s"
    and "debounceDuration (deliver D s m) = debounceDuration s"
proof -
  let ?a = "advanceTo (fst m) s"
  note q = advanceTo_quiet [OF assms(5)]
  have i: "initialized ?a" using q(5) assms(2) by simp
  have d: "documents ?a docURI = Some d" using q(1) assms(3) by simp
  have c: "\<forall>t \<in> set (uriTimers docURI ?a). debounceTimers ?a docURI = Some (handle t)"
    using q(2,4) assms(4) by simp
  note h = handleDidChange_step [OF assms(1) i d c, of D]
  show "\<exists>d' tu. documents (deliver D s m) docURI = Some d' \<and>
           Text d' = last (p_contentChanges (Params (snd m))) \<and>
           DocLanguageID d' = DocLanguageID d \<and>
           uriTimers docURI (deliver D s m) = [tu] \<and>
           deadline tu = fst m + debounceDuration s \<and>
           debounceTimers (deliver D s m) docURI = Some (handle tu)"
    using h(1,2,3) q(7,8) by (simp add: deliver_def)
  show "uriParses docURI (trace (deliver D s m)) = uriParses docURI (trace s)"
    using h(4) q(3) by (simp add: deliver_def)
  show "initialized (deliver D s m)"
    using h(5) by (simp add: deliver_def)
  show "parser (deliver D s m) = parser s"
    using h(6) q(6) by (simp add: deliver_def)
  show "debounceDuration (deliver D s m) = debounceDuration s"
    using h(7) q(7) by (simp add: deliver_def)
qed

lemma timeline_burst:
  assumes "msgs \<noteq> []" "\<forall>m \<in> set msgs. isChange docURI (snd m)"
    and "closeTogether (debounceDuration s) (map fst msgs)"
    and "initialized s" "documents s docURI = Some d"
    and "\<forall>t \<in> set (uriTimers docURI s). debounceTimers s docURI = Some (handle t)"
    and "\<forall>t \<in> set (uriTimers docURI s). fst (hd msgs) < deadline t"
  shows "\<exists>d' tu. documents (timeline D msgs s) docURI = Some d' \<and>
           Text d' = last (p_contentChanges (Params (snd (last msgs)))) \<and>
           DocLanguageID d' = DocLanguageID d \<and>
           uriTimers docURI (timeline D msgs s) = [tu] \<and>
           deadline tu = fst (last msgs) + debounceDuration s \<and>
           uriParses docURI (trace (timeline D msgs s)) = uriParses docURI (trace s) \<and>
           parser (timeline D msgs s) = parser s"
  using assms
proof (induction msgs arbitrary: s d)
  case Nil
  then show ?case by simp
next
  case (Cons m msgs)
  from Cons.prems(2) have ch: "isChange docURI (snd m)" by simp
  from Cons.prems(7) have quiet: "\<forall>t \<in> set (uriTimers docURI s). fst m < deadline t" by simp
  note step = deliver_change [OF ch Cons.prems(4,5,6) quiet, of D]
  from step(1) obtain d1 tu1 where s1:
    "documents (deliver D s m) docURI = Some d1"
    "Text d1 = last (p_contentChanges (Params (snd m)))"
    "DocLanguageID d1 = DocLanguageID d"
    "uriTimers docURI (deliver D s m) = [tu1]"
    "deadline tu1 = fst m + debounceDuration s"
    "debounceTimers (deliver D s m) docURI = Some (handle tu1)"
    by blast
  show ?case
  proof (cases msgs)
    case Nil
    with s1 step(2,4) show ?thesis
      by (simp add: timeline_def)
  next
    case (Cons m2 rest)
    from Cons.prems(3) Cons have close: "fst m \<le> fst m2" "fst m2 < fst m + debounceDuration s"
      "closeTogether (debounceDuration s) (map fst msgs)"
      by simp_all
    have ih: "\<exists>d' tu. documents (timeline D msgs (deliver D s m)) docURI = Some d' \<and>
           Text d' = last (p_contentChanges (Params (snd (last msgs)))) \<and>
           DocLanguageID d' = DocLanguageID d1 \<and>
           uriTimers docURI (timeline D msgs (deliver D s m)) = [tu] \<and>
           deadline tu = fst (last msgs) + debounceDuration (deliver D s m) \<and>
           uriParses docURI (trace (timeline D msgs (deliver D s m)))
             = uriParses docURI (trace (deliver D s m)) \<and>
           parser (timeline D msgs (deliver D s m)) = parser (deliver D s m)"
    proof (rule Cons.IH)
      show "msgs \<noteq> []" using Cons by simp
      show "\<forall>m \<in> set msgs. isChange docURI (snd m)" using Cons.prems(2) by simp
      show "closeTogether (debounceDuration (deliver D s m)) (map fst msgs)"
        using close(3) step(5) by simp
      show "initialized (deliver D s m)" by (rule step(3))
      show "documents (deliver D s m) docURI = Some d1" by (rule s1(1))
      show "\<forall>t \<in> set (uriTimers docURI (deliver D s m)).
              debounceTimers (deliver D s m) docURI = Some (handle t)"
        using s1(4,6) by simp
      show "\<forall>t \<in> set (uriTimers docURI (deliver D s m)). fst (hd msgs) < deadline t"
        using s1(4,5) close(2) Cons by simp
    qed
    have tl: "timeline D (m # msgs) s = timeline D msgs (deliver D s m)"
      by (simp add: timeline_def)
    from ih step(2,4,5) s1(3) Cons show ?thesis
      unfolding tl by auto
  qed
qed

text \<open>
  C5. Time is the clock of the state; \<open>advanceTo\<close> lets it pass and fires the timers
  that are due, \<open>timeline\<close> delivers each message at its time. Take a server that is
  initialized and has a parser, a document that is open and has no timer pending,
  and a burst of \<open>didChange\<close> notifications for it, each with a content change and
  each arriving less than the debounce interval after the one before. Then no parse
  of the document runs during the burst, nor before the interval has passed after
  the last notification; once it has passed, exactly one parse has run, on the text
  of the last notification. The last part holds for any state: the timer that fires
  parses the text the store holds at that moment.
\<close>

theorem burst_one_reparse:
  assumes "initialized s" and "parser s = Some m" and "documents s docURI = Some d"
    and "uriTimers docURI s = []"
    and "msgs \<noteq> []" and "\<forall>msg \<in> set msgs. isChange docURI (snd msg)"
    and "closeTogether (debounceDuration s) (map fst msgs)"
  shows "uriParses docURI (trace (timeline D msgs s)) = uriParses docURI (trace s) \<and>
    (\<exists>d'. documents (timeline D msgs s) docURI = Some d' \<and>
          Text d' = last (p_contentChanges (Params (snd (last msgs))))) \<and>
    (\<forall>now < fst (last msgs) + debounceDuration s.
        uriParses docURI (trace (advanceTo now (timeline D msgs s))) = uriParses docURI (trace s)) \<and>
    (\<forall>now \<ge> fst (last msgs) + debounceDuration s.
        \<exists>hint. uriParses docURI (trace (advanceTo now (timeline D msgs s))) =
          uriParses docURI (trace s) @
            [ParseCall docURI (DocLanguageID d)
               (last (p_contentChanges (Params (snd (last msgs))))) hint]) \<and>
    (\<forall>s' tu d' now.
        uriTimers docURI s' = [tu] \<and> deadline tu \<le> now \<and> documents s' docURI = Some d' \<and>
        parser s' = Some m \<longrightarrow>
        uriParses docURI (trace (advanceTo now s')) =
          uriParses docURI (trace s') @
            [ParseCall docURI (DocLanguageID d') (Text d') (capturedTree tu)])"
proof -
  let ?s1 = "timeline D msgs s"
  have "\<exists>d' tu. documents ?s1 docURI = Some d' \<and>
           Text d' = last (p_contentChanges (Params (snd (last msgs)))) \<and>
           DocLanguageID d' = DocLanguageID d \<and>
           uriTimers docURI ?s1 = [tu] \<and>
           deadline tu = fst (last msgs) + debounceDuration s \<and>
           uriParses docURI (trace ?s1) = uriParses docURI (trace s) \<and>
           parser ?s1 = parser s"
    using assms(4) by (intro timeline_burst [OF assms(5,6,7,1,3)]) simp_all
  then obtain d' tu where b:
    "documents ?s1 docURI = Some d'"
    "Text d' = last (p_contentChanges (Params (snd (last msgs))))"
    "DocLanguageID d' = DocLanguageID d"
    "uriTimers docURI ?s1 = [tu]"
    "deadline tu = fst (last msgs) + debounceDuration s"
    "uriParses docURI (trace ?s1) = uriParses docURI (trace s)"
    "parser ?s1 = parser s"
    by blast
  have early: "uriParses docURI (trace (advanceTo now ?s1)) = uriParses docURI (trace s)"
    if "now < fst (last msgs) + debounceDuration s" for now
    using advanceTo_quiet(3) [of docURI ?s1 now] b(4,5,6) that by simp
  have late: "\<exists>hint. uriParses docURI (trace (advanceTo now ?s1)) =
          uriParses docURI (trace s) @
            [ParseCall docURI (DocLanguageID d)
               (last (p_contentChanges (Params (snd (last msgs))))) hint]"
    if "now \<ge> fst (last msgs) + debounceDuration s" for now
  proof -
    from that b(5) have "deadline tu \<le> now" by simp
    moreover from b(7) assms(2) have "parser ?s1 = Some m" by simp
    ultimately have "uriParses docURI (trace (advanceTo now ?s1)) =
        uriParses docURI (trace ?s1) @
          [ParseCall docURI (DocLanguageID d') (Text d') (capturedTree tu)]"
      using b(1,4) by (intro advanceTo_fires)
    with b(2,3,6) show ?thesis by auto
  qed
  from b(1,2,6) early late advanceTo_fires show ?thesis
    by blast
qed

theorem burst_one_reparse_witness:
  "initialized staleState \<and> parser staleState = Some lengthParser \<and>
   documents staleState ''file:///main.go'' = Some staleDoc \<and>
   uriTimers ''file:///main.go'' staleState = [] \<and> burstMsgs \<noteq> [] \<and>
   list_all (\<lambda>msg. isChange ''file:///main.go'' (snd msg)) burstMsgs \<and>
   closeTogether (debounceDuration staleState) (map fst burstMsgs) \<and>
   fst (last burstMsgs) + debounceDuration staleState = 700 \<and>
   last (p_contentChanges (Params (snd (last burstMsgs)))) = ''package main func'' \<and>
   uriParses ''file:///main.go'' (trace (advanceTo 699 (timeline noDescendant burstMsgs staleState)))
     = uriParses ''file:///main.go'' (trace staleState) \<and>
   (\<exists>hint. uriParses ''file:///main.go''
            (trace (advanceTo 700 (timeline noDescendant burstMsgs staleState))) =
          uriParses ''file:///main.go'' (trace staleState) @
            [ParseCall ''file:///main.go'' (DocLanguageID staleDoc) ''package main func'' hint])"
proof -
  have h1: "initialized staleState" and h2: "parser staleState = Some lengthParser"
    and h3: "documents staleState ''file:///main.go'' = Some staleDoc"
    and h4: "uriTimers ''file:///main.go'' staleState = []"
    by (simp_all add: staleState_def NewServer_def staleDoc_def uriTimers_def)
  have h5: "burstMsgs \<noteq> []"
    and h6: "\<forall>msg \<in> set burstMsgs. isChange ''file:///main.go'' (snd msg)"
    by (simp_all add: burstMsgs_def isChange_def changeTo_def)
  have dd: "debounceDuration staleState = 300"
    by (simp add: staleState_def NewServer_def)
  have h7: "closeTogether (debounceDuration staleState) (map fst burstMsgs)"
    by (simp add: dd burstMsgs_def)
  have t: "fst (last burstMsgs) + debounceDuration staleState = 700"
    by (simp add: dd burstMsgs_def)
  have l: "last (p_contentChanges (Params (snd (last burstMsgs)))) = ''package main func''"
    by (simp add: burstMsgs_def changeTo_def)
  note th = burst_one_reparse [OF h1 h2 h3 h4 h5 h6 h7, of noDescendant]
  from th have "\<forall>now < fst (last burstMsgs) + debounceDuration staleState.
        uriParses ''file:///main.go'' (trace (advanceTo now (timeline noDescendant burstMsgs staleState)))
          = uriParses ''file:///main.go'' (trace staleState)"
    by blast
  then have early: "uriParses ''file:///main.go''
        (trace (advanceTo 699 (timeline noDescendant burstMsgs staleState)))
          = uriParses ''file:///main.go'' (trace staleState)"
    by (simp add: t)
  from th have "\<forall>now \<ge> fst (last burstMsgs) + debounceDuration staleState.
        \<exists>hint. uriParses ''file:///main.go''
            (trace (advanceTo now (timeline noDescendant burstMsgs staleState))) =
          uriParses ''file:///main.go'' (trace staleState) @
            [ParseCall ''file:///main.go'' (DocLanguageID staleDoc)
               (last (p_contentChanges (Params (snd (last burstMsgs))))) hint]"
    by blast
  then have late: "\<exists>hint. uriParses ''file:///main.go''
            (trace (advanceTo 700 (timeline noDescendant burstMsgs staleState))) =
          uriParses ''file:///main.go'' (trace staleState) @
            [ParseCall ''file:///main.go'' (DocLanguageID staleDoc) ''package main func'' hint]"
    by (simp add: t l)
  from h6 have h6': "list_all (\<lambda>msg. isChange ''file:///main.go'' (snd msg)) burstMsgs"
    by (simp add: list_all_iff)
  from h1 h2 h3 h4 h5 h6' h7 t l early late show ?thesis by blast
qed

end
